theory Spec2Isabelle
  imports Main
begin

section \<open>Quote generator: the storage format and the command line\<close>

text \<open>
  The program \<^verbatim>\<open>quotegenerator.py\<close> keeps a list of quotes in the text file
  \<^verbatim>\<open>quotes.txt\<close>, one quote per line, and offers five commands on it. This theory
  embeds its functions and proves the properties of the storage format, of the
  operations and of the dispatcher.
\<close>

subsection \<open>Python strings\<close>

text \<open>
  A Python \<^verbatim>\<open>str\<close> is a sequence of Unicode code points. A code point is a natural
  number here, so that \<^verbatim>\<open>strip\<close> sees the whitespace beyond ASCII as Python does.
  \<open>str\<close> turns an ASCII literal into such a string.
\<close>

type_synonym pychar = nat
type_synonym pystr = "pychar list"

definition str :: "string \<Rightarrow> pystr" where
  "str s = map of_char s"

definition LF :: pychar where "LF = 10"
definition CR :: pychar where "CR = 13"
definition BAR :: pychar where "BAR = 124"

text \<open>
  \<^verbatim>\<open>str.isspace\<close> on one code point: the table of CPython 3
  (\<^verbatim>\<open>_PyUnicode_IsWhitespace\<close>): U+0009..U+000D, U+001C..U+0020, U+0085, U+00A0,
  U+1680, U+2000..U+200A, U+2028, U+2029, U+202F, U+205F, U+3000.
\<close>

definition isspace :: "pychar \<Rightarrow> bool" where
  "isspace c \<longleftrightarrow>
     (9 \<le> c \<and> c \<le> 13) \<or> (28 \<le> c \<and> c \<le> 32) \<or> c = 133 \<or> c = 160 \<or> c = 5760 \<or>
     (8192 \<le> c \<and> c \<le> 8202) \<or> c = 8232 \<or> c = 8233 \<or> c = 8239 \<or> c = 8287 \<or>
     c = 12288"

text \<open>\<^verbatim>\<open>s.strip()\<close>: the whitespace at both ends is dropped.\<close>

definition lstrip :: "pystr \<Rightarrow> pystr" where
  "lstrip s = dropWhile isspace s"

definition rstrip :: "pystr \<Rightarrow> pystr" where
  "rstrip s = rev (dropWhile isspace (rev s))"

definition strip :: "pystr \<Rightarrow> pystr" where
  "strip s = rstrip (lstrip s)"

text \<open>
  \<^verbatim>\<open>s.lower()\<close>. The program uses it once, to compare an author with
  \<^verbatim>\<open>"unknown"\<close>. Python's table of lower-case mappings is the interpreter's; the rows
  kept here are the ASCII capitals and U+212A KELVIN SIGN, which are all the code points
  other than the letters themselves that Python maps into the letters of
  \<^verbatim>\<open>"unknown"\<close>. No code point is mapped to the empty string, so the other rows
  cannot change the outcome of that comparison.
\<close>

definition lower_char :: "pychar \<Rightarrow> pychar" where
  "lower_char c = (if 65 \<le> c \<and> c \<le> 90 then c + 32 else if c = 8490 then 107 else c)"

definition lower :: "pystr \<Rightarrow> pystr" where
  "lower s = map lower_char s"

text \<open>
  \<^verbatim>\<open>s.split(sep, 1)\<close> for a separator of one character: the list of the one or two
  pieces around the first occurrence of the separator.
\<close>

fun split1 :: "pychar \<Rightarrow> pystr \<Rightarrow> pystr list" where
  "split1 sep [] = [[]]"
| "split1 sep (c # cs) =
     (if c = sep then [[], cs]
      else (case split1 sep cs of
              [] \<Rightarrow> []
            | piece # pieces \<Rightarrow> (c # piece) # pieces))"

text \<open>\<^verbatim>\<open>str(n)\<close> for a length: the decimal digits of a natural number.\<close>

fun str_of_nat :: "nat \<Rightarrow> pystr" where
  "str_of_nat n =
     (if n < 10 then [48 + n] else str_of_nat (n div 10) @ [48 + n mod 10])"

declare str_of_nat.simps [simp del]

subsection \<open>UTF-8\<close>

text \<open>
  The file is opened with \<^verbatim>\<open>encoding="utf-8"\<close> and the default, strict, error
  handling. On the disk it is a sequence of bytes; a byte is a number below 256.

  Writing encodes. A code point encodes unless it is a surrogate (U+D800..U+DFFF), which a
  Python string can hold, for instance in a command-line argument that was not UTF-8.
  Python has no code point from U+110000 on. \<open>utf8_char\<close> is the encoding of a code
  point that encodes; the program applies it to no other.
\<close>

type_synonym byte = nat

definition encodable :: "pychar \<Rightarrow> bool" where
  "encodable c \<longleftrightarrow> c < 55296 \<or> (57344 \<le> c \<and> c < 1114112)"

definition utf8_char :: "pychar \<Rightarrow> byte list" where
  "utf8_char c =
     (if c < 128 then [c]
      else if c < 2048 then [192 + c div 64, 128 + c mod 64]
      else if c < 65536 then [224 + c div 4096, 128 + c div 64 mod 64, 128 + c mod 64]
      else [240 + c div 262144, 128 + c div 4096 mod 64, 128 + c div 64 mod 64,
            128 + c mod 64])"

definition utf8 :: "pystr \<Rightarrow> byte list" where
  "utf8 s = concat (map utf8_char s)"

text \<open>
  Reading decodes. \<open>decode_first\<close> is the code point that the first bytes encode and the
  number of those bytes, after the table of well-formed UTF-8 byte sequences of the Unicode
  standard: no byte 0xC0, 0xC1 or above 0xF4 starts a sequence, a continuation byte is
  0x80..0xBF, and the second byte is further restricted after 0xE0 (no overlong form),
  0xED (no surrogate), 0xF0 (no overlong form) and 0xF4 (nothing above U+10FFFF).
\<close>

definition continuation :: "byte \<Rightarrow> bool" where
  "continuation b \<longleftrightarrow> 128 \<le> b \<and> b < 192"

definition decode_first :: "byte list \<Rightarrow> (pychar \<times> nat) option" where
  "decode_first bs =
     (case bs of
        [] \<Rightarrow> None
      | b0 # r0 \<Rightarrow>
          if b0 < 128 then Some (b0, 1)
          else if 194 \<le> b0 \<and> b0 < 224 then
            (case r0 of
               b1 # r1 \<Rightarrow>
                 if continuation b1 then Some ((b0 - 192) * 64 + (b1 - 128), 2) else None
             | [] \<Rightarrow> None)
          else if 224 \<le> b0 \<and> b0 < 240 then
            (case r0 of
               b1 # b2 # r2 \<Rightarrow>
                 if (if b0 = 224 then 160 else 128) \<le> b1 \<and>
                    b1 < (if b0 = 237 then 160 else 192) \<and> continuation b2
                 then Some (((b0 - 224) * 64 + (b1 - 128)) * 64 + (b2 - 128), 3)
                 else None
             | _ \<Rightarrow> None)
          else if 240 \<le> b0 \<and> b0 < 245 then
            (case r0 of
               b1 # b2 # b3 # r3 \<Rightarrow>
                 if (if b0 = 240 then 144 else 128) \<le> b1 \<and>
                    b1 < (if b0 = 244 then 144 else 192) \<and> continuation b2 \<and>
                    continuation b3
                 then Some ((((b0 - 240) * 64 + (b1 - 128)) * 64 + (b2 - 128)) * 64
                            + (b3 - 128), 4)
                 else None
             | _ \<Rightarrow> None)
          else None)"

text \<open>
  The text of a sequence of bytes, or \<open>None\<close> where Python raises
  \<^verbatim>\<open>UnicodeDecodeError\<close>.
\<close>

function utf8_decode :: "byte list \<Rightarrow> pystr option" where
  "utf8_decode bs =
     (if bs = [] then Some []
      else (case decode_first bs of
              None \<Rightarrow> None
            | Some (c, n) \<Rightarrow> map_option ((#) c) (utf8_decode (drop n bs))))"
  by pat_completeness auto
termination
  by (relation "measure length")
     (auto simp: decode_first_def split: list.splits if_splits)

declare utf8_decode.simps [simp del]

subsection \<open>Errors, quotes and the world\<close>

text \<open>
  The exceptions that the statements of the program can raise: unpacking a list that
  does not have two elements, popping outside of a list, choosing from an empty list,
  opening a file that is not there for reading, writing a string that does not encode,
  reading bytes that do not decode.
\<close>

datatype error =
  ValueError | IndexError | FileNotFoundError | UnicodeEncodeError | UnicodeDecodeError

type_synonym quote = "pystr \<times> pystr"

text \<open>
  The world of one run: the bytes of \<^verbatim>\<open>quotes.txt\<close> (\<open>None\<close> when the file does not
  exist), the number of times the file has been opened for writing, the lines printed so
  far, and the number that \<^verbatim>\<open>random.choice\<close> draws its index from.
\<close>

record world =
  quotes_file :: "byte list option"
  writes :: nat
  stdout :: "pystr list"
  entropy :: nat

text \<open>
  What a statement that can raise gives: \<open>Inr\<close> its value, or \<open>Inl\<close> the exception
  with the world that the statement has left behind.
\<close>

type_synonym 'a result = "(error \<times> world) + 'a"

text \<open>
  \<^verbatim>\<open>print(s)\<close>. Every string that the program prints is one of its own messages, a
  number, or made of fields that were decoded from the file; standard output is taken to
  accept them all, as a UTF-8 terminal does.
\<close>

definition print :: "pystr \<Rightarrow> world \<Rightarrow> world" where
  "print s w = w\<lparr>stdout := stdout w @ [s]\<rparr>"

subsection \<open>Reading a text file line by line\<close>

text \<open>
  Text mode reads the decoded text with universal newlines: \<^verbatim>\<open>\r\n\<close> and a lone
  \<^verbatim>\<open>\r\<close> arrive as \<^verbatim>\<open>\n\<close>. Writing on POSIX leaves \<^verbatim>\<open>\n\<close> as it is.
\<close>

fun universal_newlines :: "pystr \<Rightarrow> pystr" where
  "universal_newlines [] = []"
| "universal_newlines [c] = (if c = CR then [LF] else [c])"
| "universal_newlines (c # d # cs) =
     (if c = CR \<and> d = LF then LF # universal_newlines cs
      else if c = CR then LF # universal_newlines (d # cs)
      else c # universal_newlines (d # cs))"

text \<open>
  \<^verbatim>\<open>for raw in f\<close>: the lines of the text, each with its terminator; the last one
  has none when the text does not end in a newline. \<open>cur\<close> is the line being read.
\<close>

fun lines_from :: "pystr \<Rightarrow> pystr \<Rightarrow> pystr list" where
  "lines_from cur [] = (if cur = [] then [] else [cur])"
| "lines_from cur (c # cs) =
     (if c = LF then (cur @ [LF]) # lines_from [] cs else lines_from (cur @ [c]) cs)"

definition file_lines :: "pystr \<Rightarrow> pystr list" where
  "file_lines content = lines_from [] (universal_newlines content)"

subsection \<open>The quote store\<close>

definition DEFAULT_QUOTES :: "pystr list" where
  "DEFAULT_QUOTES =
    [str ''The best way to get started is to quit talking and begin doing.|Walt Disney'',
     str ''Whether you think you can or you think you can'' @ [8217] @ str ''t, you''
       @ [8217] @ str ''re right.|Henry Ford'',
     str ''It always seems impossible until it'' @ [8217] @ str ''s done.|Nelson Mandela'',
     str ''Stay hungry, stay foolish.|Steve Jobs'',
     str ''You miss 100% of the shots you don'' @ [8217] @ str ''t take.|Wayne Gretzky'',
     str ''If you'' @ [8217] @ str ''re going through hell, keep going.|Winston Churchill'',
     str ''Dream big and dare to fail.|Norman Vaughan'',
     str ''The secret of getting ahead is getting started.|Mark Twain'',
     str ''Small steps every day.|Unknown'',
     str ''Do one thing every day that scares you.|Eleanor Roosevelt'']"

text \<open>
  \<^verbatim>\<open>ensure_quotes_file\<close>: when the file does not exist it is opened for writing and
  every default line is written, stripped, with a newline. The default lines are
  constants without a surrogate (lemma \<open>DEFAULT_QUOTES_encodable\<close>), so these writes
  do not raise.
\<close>

definition ensure_quotes_file :: "world \<Rightarrow> world" where
  "ensure_quotes_file w =
     (case quotes_file w of
        None \<Rightarrow>
          w\<lparr>quotes_file :=
              Some (fold (\<lambda>line f. f @ utf8 (strip line @ [LF])) DEFAULT_QUOTES []),
            writes := Suc (writes w)\<rparr>
      | Some content \<Rightarrow> w)"

text \<open>\<^verbatim>\<open>a, b = xs\<close> raises \<^verbatim>\<open>ValueError\<close> unless the list has two elements.\<close>

definition unpack2 :: "'a list \<Rightarrow> error + ('a \<times> 'a)" where
  "unpack2 xs = (case xs of [a, b] \<Rightarrow> Inr (a, b) | _ \<Rightarrow> Inl ValueError)"

text \<open>
  The four lines that \<^verbatim>\<open>load_quotes\<close> and \<^verbatim>\<open>add_quote\<close> both contain: the text
  and the author of a stripped line, before they are stripped themselves.
\<close>

definition text_author :: "pystr \<Rightarrow> error + (pystr \<times> pystr)" where
  "text_author raw =
     (if BAR \<in> set raw then unpack2 (split1 BAR raw) else Inr (raw, str ''Unknown''))"

text \<open>The loop of \<^verbatim>\<open>load_quotes\<close> over the lines of the file.\<close>

fun load_loop :: "pystr list \<Rightarrow> quote list \<Rightarrow> error + quote list" where
  "load_loop [] quotes = Inr quotes"
| "load_loop (raw0 # rest) quotes =
     (let raw = strip raw0 in
      if raw = [] then load_loop rest quotes
      else (case text_author raw of
              Inl e \<Rightarrow> Inl e
            | Inr (text, author) \<Rightarrow> load_loop rest (quotes @ [(strip text, strip author)])))"

text \<open>
  \<^verbatim>\<open>load_quotes\<close>. Reading raises \<^verbatim>\<open>UnicodeDecodeError\<close> when the bytes of the
  file are not UTF-8; the lines before the bad bytes have been read by then, but the list
  that was being built is lost with the exception.
\<close>

definition load_quotes :: "world \<Rightarrow> (quote list \<times> world) result" where
  "load_quotes w =
     (let w1 = ensure_quotes_file w in
      case quotes_file w1 of
        None \<Rightarrow> Inl (FileNotFoundError, w1)
      | Some bytes \<Rightarrow>
          (case utf8_decode bytes of
             None \<Rightarrow> Inl (UnicodeDecodeError, w1)
           | Some content \<Rightarrow>
               (case load_loop (file_lines content) [] of
                  Inl e \<Rightarrow> Inl (e, w1)
                | Inr quotes \<Rightarrow> Inr (quotes, w1))))"

text \<open>
  \<^verbatim>\<open>f.write(s)\<close> on the bytes \<open>f\<close> written so far: the string is encoded as a whole
  and appended, or \<^verbatim>\<open>UnicodeEncodeError\<close> is raised and nothing of it is written.
\<close>

definition write_text :: "pystr \<Rightarrow> byte list \<Rightarrow> error + byte list" where
  "write_text s f = (if list_all encodable s then Inr (f @ utf8 s) else Inl UnicodeEncodeError)"

text \<open>The line that \<^verbatim>\<open>save_quotes\<close> formats for one quote.\<close>

definition save_line :: "quote \<Rightarrow> pystr" where
  "save_line q =
     (case q of (text, author) \<Rightarrow>
        if author \<noteq> [] \<and> lower author \<noteq> str ''unknown''
        then text @ [BAR] @ author @ [LF]
        else text @ [LF])"

text \<open>
  The loop of \<^verbatim>\<open>save_quotes\<close>. When a write raises, the \<^verbatim>\<open>with\<close> statement
  closes the file, which then holds the lines written before.
\<close>

fun save_loop :: "quote list \<Rightarrow> byte list \<Rightarrow> (error \<times> byte list) + byte list" where
  "save_loop [] f = Inr f"
| "save_loop (q # rest) f =
     (case write_text (save_line q) f of
        Inl e \<Rightarrow> Inl (e, f)
      | Inr f' \<Rightarrow> save_loop rest f')"

text \<open>
  \<^verbatim>\<open>save_quotes\<close>: the file is opened for writing, which empties it, and one line is
  written for every quote.
\<close>

definition save_quotes :: "quote list \<Rightarrow> world \<Rightarrow> world result" where
  "save_quotes quotes w =
     (case save_loop quotes [] of
        Inl (e, f) \<Rightarrow> Inl (e, w\<lparr>quotes_file := Some f, writes := Suc (writes w)\<rparr>)
      | Inr f \<Rightarrow> Inr (w\<lparr>quotes_file := Some f, writes := Suc (writes w)\<rparr>))"

text \<open>
  \<^verbatim>\<open>xs.pop(i)\<close>: a negative index counts from the end, an index outside of the list
  raises \<^verbatim>\<open>IndexError\<close>; the result is the element and the list without it.
\<close>

definition pop :: "'a list \<Rightarrow> int \<Rightarrow> error + ('a \<times> 'a list)" where
  "pop xs i =
     (let n = int (length xs); j = (if i < 0 then i + n else i) in
      if 0 \<le> j \<and> j < n
      then Inr (xs ! nat j, take (nat j) xs @ drop (Suc (nat j)) xs)
      else Inl IndexError)"

text \<open>
  \<^verbatim>\<open>random.choice(xs)\<close> raises \<^verbatim>\<open>IndexError\<close> on an empty list and returns one of
  the elements otherwise; which one is decided by the number \<open>r\<close>.
\<close>

definition choice :: "'a list \<Rightarrow> nat \<Rightarrow> error + 'a" where
  "choice xs r = (if xs = [] then Inl IndexError else Inr (xs ! (r mod length xs)))"

definition print_random_quote :: "world \<Rightarrow> world result" where
  "print_random_quote w =
     (case load_quotes w of
        Inl raised \<Rightarrow> Inl raised
      | Inr (quotes, w1) \<Rightarrow>
          if quotes = [] then Inr (print (str ''No quotes found. Add one with --add.'') w1)
          else (case choice quotes (entropy w1) of
                  Inl e \<Rightarrow> Inl (e, w1)
                | Inr (text, author) \<Rightarrow>
                    Inr (print ([8220] @ text @ [8221] @ str '' '' @ [8212] @ str '' ''
                                @ author) w1)))"

text \<open>The loop of \<^verbatim>\<open>list_quotes\<close>: \<^verbatim>\<open>enumerate(quotes, start=1)\<close>.\<close>

fun list_loop :: "nat \<Rightarrow> quote list \<Rightarrow> world \<Rightarrow> world" where
  "list_loop i [] w = w"
| "list_loop i ((text, author) # rest) w =
     list_loop (Suc i) rest
       (print (str_of_nat i @ str ''. '' @ text @ str '' '' @ [8212] @ str '' '' @ author) w)"

definition list_quotes :: "world \<Rightarrow> world result" where
  "list_quotes w =
     (case load_quotes w of
        Inl raised \<Rightarrow> Inl raised
      | Inr (quotes, w1) \<Rightarrow>
          if quotes = [] then Inr (print (str ''No quotes yet. Add some with --add.'') w1)
          else Inr (list_loop 1 quotes w1))"

definition add_quote :: "pystr \<Rightarrow> world \<Rightarrow> world result" where
  "add_quote raw0 w =
     (let raw = strip raw0 in
      if raw = [] then Inr (print (str ''Provide a non-empty quote.'') w)
      else (case text_author raw of
              Inl e \<Rightarrow> Inl (e, w)
            | Inr (text, author) \<Rightarrow>
                (case load_quotes w of
                   Inl raised \<Rightarrow> Inl raised
                 | Inr (quotes, w1) \<Rightarrow>
                     (case save_quotes (quotes @ [(strip text, strip author)]) w1 of
                        Inl raised \<Rightarrow> Inl raised
                      | Inr w2 \<Rightarrow> Inr (print ([9989] @ str '' Added.'') w2)))))"

definition remove_quote :: "int \<Rightarrow> world \<Rightarrow> world result" where
  "remove_quote index w =
     (case load_quotes w of
        Inl raised \<Rightarrow> Inl raised
      | Inr (quotes, w1) \<Rightarrow>
          if \<not> (1 \<le> index \<and> index \<le> int (length quotes))
          then Inr (print (str ''Index out of range. Must be 1..''
                           @ str_of_nat (length quotes)) w1)
          else (case pop quotes (index - 1) of
                  Inl e \<Rightarrow> Inl (e, w1)
                | Inr (removed, quotes') \<Rightarrow>
                    (case save_quotes quotes' w1 of
                       Inl raised \<Rightarrow> Inl raised
                     | Inr w2 \<Rightarrow>
                         Inr (print ([128465, 65039] @ str '' Removed: '' @ [8220]
                                     @ fst removed @ [8221] @ str '' '' @ [8212] @ str '' ''
                                     @ snd removed) w2))))"

subsection \<open>The dispatcher\<close>

text \<open>
  The namespace that \<^verbatim>\<open>argparse\<close> returns: two flags, the argument of
  \<^verbatim>\<open>--add\<close> and the argument of \<^verbatim>\<open>--remove\<close> (\<open>None\<close> when the option is not
  on the command line).
\<close>

record args =
  arg_list :: bool
  arg_count :: bool
  arg_add :: "pystr option"
  arg_remove :: "int option"

text \<open>
  \<^verbatim>\<open>main\<close> after parsing. \<^verbatim>\<open>if args.add:\<close> is Python's truth test: \<^verbatim>\<open>None\<close> and
  the empty string both fail it. \<^verbatim>\<open>if args.remove is not None:\<close> tests for presence.
\<close>

definition main :: "args \<Rightarrow> world \<Rightarrow> world result" where
  "main a w =
     (if arg_add a \<noteq> None \<and> arg_add a \<noteq> Some [] then add_quote (the (arg_add a)) w
      else if arg_remove a \<noteq> None then remove_quote (the (arg_remove a)) w
      else if arg_list a then list_quotes w
      else if arg_count a then
        (case load_quotes w of
           Inl raised \<Rightarrow> Inl raised
         | Inr (quotes, w1) \<Rightarrow> Inr (print (str_of_nat (length quotes)) w1))
      else print_random_quote w)"

subsection \<open>The storage format as the specification words it\<close>

text \<open>
  The definitions of this part follow the words of the specification and use none of the
  functions above, except \<open>isspace\<close> and \<open>lower\<close>, which say what whitespace and case are.

  Trimming: the whitespace at the start is dropped, and the whitespace at the end.
\<close>

fun drop_space :: "pystr \<Rightarrow> pystr" where
  "drop_space [] = []"
| "drop_space (c # cs) = (if isspace c then drop_space cs else c # cs)"

definition trim :: "pystr \<Rightarrow> pystr" where
  "trim s = rev (drop_space (rev (drop_space s)))"

text \<open>
  The lines of a text, without their ends: a line ends at a line feed, at a carriage
  return, or at a carriage return with a line feed after it; what follows the last line
  end is a line when it is not empty. \<open>cur\<close> is the line so far.
\<close>

fun spec_lines_from :: "pystr \<Rightarrow> pystr \<Rightarrow> pystr list" where
  "spec_lines_from cur [] = (if cur = [] then [] else [cur])"
| "spec_lines_from cur [c] = (if c = LF \<or> c = CR then [cur] else [cur @ [c]])"
| "spec_lines_from cur (c # d # cs) =
     (if c = CR \<and> d = LF then cur # spec_lines_from [] cs
      else if c = LF \<or> c = CR then cur # spec_lines_from [] (d # cs)
      else spec_lines_from (cur @ [c]) (d # cs))"

definition spec_lines :: "pystr \<Rightarrow> pystr list" where
  "spec_lines content = spec_lines_from [] content"

text \<open>
  Load, in the specification's words: blank lines are skipped; a line with a \<open>|\<close> is
  split at the first one, the text is the left part trimmed and the author the right
  part trimmed; a line without \<open>|\<close> is, trimmed, the text of a quote whose author is
  \<open>Unknown\<close>; the quotes come in the order of the file.
\<close>

definition blank :: "pystr \<Rightarrow> bool" where
  "blank line \<longleftrightarrow> list_all isspace line"

definition spec_quote_of_line :: "pystr \<Rightarrow> quote" where
  "spec_quote_of_line line =
     (if BAR \<in> set line
      then (trim (takeWhile (\<lambda>c. c \<noteq> BAR) line),
            trim (tl (dropWhile (\<lambda>c. c \<noteq> BAR) line)))
      else (trim line, str ''Unknown''))"

definition spec_load :: "pystr \<Rightarrow> quote list" where
  "spec_load content =
     map spec_quote_of_line (filter (\<lambda>line. \<not> blank line) (spec_lines content))"

text \<open>
  Save, in the specification's words: one line per quote, \<open>text|author\<close> when the
  author is present and not, whatever the case of its letters, \<open>Unknown\<close>, and the
  bare text otherwise.
\<close>

definition equal_ignoring_case :: "pystr \<Rightarrow> pystr \<Rightarrow> bool" where
  "equal_ignoring_case a b \<longleftrightarrow> lower a = lower b"

definition spec_line_of_quote :: "quote \<Rightarrow> pystr" where
  "spec_line_of_quote q =
     (if snd q \<noteq> [] \<and> \<not> equal_ignoring_case (snd q) (str ''Unknown'')
      then fst q @ str ''|'' @ snd q
      else fst q)"

definition spec_save :: "quote list \<Rightarrow> pystr" where
  "spec_save quotes = concat (map (\<lambda>q. spec_line_of_quote q @ [LF]) quotes)"

text \<open>
  A well-formed quote list, as the round-trip property words it: every text and every
  author is non-empty after trimming and has no newline in it. A newline is a line feed
  or a carriage return, which text mode reads as one.
\<close>

definition newline_free :: "pystr \<Rightarrow> bool" where
  "newline_free s \<longleftrightarrow> LF \<notin> set s \<and> CR \<notin> set s"

definition well_formed :: "quote list \<Rightarrow> bool" where
  "well_formed quotes =
     list_all (\<lambda>q. strip (fst q) \<noteq> [] \<and> strip (snd q) \<noteq> [] \<and>
                   newline_free (fst q) \<and> newline_free (snd q)) quotes"

text \<open>A quote that can be written: no code point of its fields is a surrogate.\<close>

definition writable :: "quote \<Rightarrow> bool" where
  "writable q \<longleftrightarrow> list_all encodable (fst q) \<and> list_all encodable (snd q)"

text \<open>
  What every quote that \<open>load_quotes\<close> returns has: both fields are trimmed, free of
  newlines and can be written, and the text has no \<open>|\<close>.
\<close>

definition as_loaded :: "quote \<Rightarrow> bool" where
  "as_loaded q \<longleftrightarrow>
     strip (fst q) = fst q \<and> strip (snd q) = snd q \<and>
     newline_free (fst q) \<and> newline_free (snd q) \<and> BAR \<notin> set (fst q) \<and> writable q"

text \<open>
  The author that a quote has after it has been saved and loaded: an empty author and
  an author that is \<open>unknown\<close> in any case come back as \<open>Unknown\<close>.
\<close>

definition reloaded :: "quote \<Rightarrow> quote" where
  "reloaded q =
     (if snd q \<noteq> [] \<and> lower (snd q) \<noteq> str ''unknown'' then q
      else (fst q, str ''Unknown''))"

text \<open>
  The quote lists that a save followed by a load gives back unchanged: the well-formed
  ones that can be written, whose fields are trimmed, whose texts have no \<open>|\<close>, and
  whose authors are \<open>Unknown\<close> as it is written here or not \<open>unknown\<close> in any case.
\<close>

definition storable :: "quote list \<Rightarrow> bool" where
  "storable quotes =
     list_all (\<lambda>q. fst q \<noteq> [] \<and> snd q \<noteq> [] \<and> as_loaded q \<and>
                   (snd q = str ''Unknown'' \<or> lower (snd q) \<noteq> str ''unknown'')) quotes"

text \<open>
  The quote lists of which save writes one line each: those that can be written and
  have no newline in a field.
\<close>

definition one_line_each :: "quote list \<Rightarrow> bool" where
  "one_line_each quotes =
     list_all (\<lambda>q. writable q \<and> newline_free (fst q) \<and> newline_free (snd q)) quotes"

text \<open>The bytes of the file that \<open>ensure_quotes_file\<close> creates.\<close>

definition default_file :: "byte list" where
  "default_file = fold (\<lambda>line f. f @ utf8 (strip line @ [LF])) DEFAULT_QUOTES []"

text \<open>The world before the first run: no file, nothing printed.\<close>

definition fresh :: world where
  "fresh = \<lparr>quotes_file = None, writes = 0, stdout = [], entropy = 0\<rparr>"

text \<open>The ten default quotes as pairs of text and author.\<close>

definition default_pairs :: "quote list" where
  "default_pairs =
    [(str ''The best way to get started is to quit talking and begin doing.'',
      str ''Walt Disney''),
     (str ''Whether you think you can or you think you can'' @ [8217] @ str ''t, you''
        @ [8217] @ str ''re right.'', str ''Henry Ford''),
     (str ''It always seems impossible until it'' @ [8217] @ str ''s done.'',
      str ''Nelson Mandela''),
     (str ''Stay hungry, stay foolish.'', str ''Steve Jobs''),
     (str ''You miss 100% of the shots you don'' @ [8217] @ str ''t take.'',
      str ''Wayne Gretzky''),
     (str ''If you'' @ [8217] @ str ''re going through hell, keep going.'',
      str ''Winston Churchill''),
     (str ''Dream big and dare to fail.'', str ''Norman Vaughan''),
     (str ''The secret of getting ahead is getting started.'', str ''Mark Twain''),
     (str ''Small steps every day.'', str ''Unknown''),
     (str ''Do one thing every day that scares you.'', str ''Eleanor Roosevelt'')]"

section \<open>Properties of the string operations\<close>

lemma isspace_LF [simp]: "isspace LF" by (simp add: isspace_def LF_def)
lemma not_isspace_BAR [simp]: "\<not> isspace BAR" by (simp add: isspace_def BAR_def)
lemma BAR_neq [simp]: "BAR \<noteq> LF" "BAR \<noteq> CR" "LF \<noteq> CR" "LF \<noteq> BAR" "CR \<noteq> BAR" "CR \<noteq> LF"
  by (simp_all add: BAR_def LF_def CR_def)

lemma lstrip_spaces: "\<forall>c\<in>set a. isspace c \<Longrightarrow> lstrip (a @ s) = lstrip s"
  by (simp add: lstrip_def dropWhile_append2)

lemma lstrip_nonspace: "\<not> isspace y \<Longrightarrow> lstrip (xs @ y # ys) = lstrip xs @ y # ys"
  by (simp add: lstrip_def dropWhile_append3)

lemma lstrip_hd: "s = [] \<or> \<not> isspace (hd s) \<Longrightarrow> lstrip s = s"
  by (cases s) (auto simp: lstrip_def)

lemma rstrip_spaces: "\<forall>c\<in>set b. isspace c \<Longrightarrow> rstrip (s @ b) = rstrip s"
  by (simp add: rstrip_def dropWhile_append)

lemma rstrip_nonspace: "\<not> isspace y \<Longrightarrow> rstrip (xs @ y # ys) = xs @ y # rstrip ys"
  by (simp add: rstrip_def dropWhile_append3)

lemma rstrip_last: "s = [] \<or> \<not> isspace (last s) \<Longrightarrow> rstrip s = s"
  by (cases s rule: rev_cases) (auto simp: rstrip_def)

lemma lstrip_idem [simp]: "lstrip (lstrip s) = lstrip s"
  by (simp add: lstrip_def)

lemma rstrip_idem [simp]: "rstrip (rstrip s) = rstrip s"
  by (simp add: rstrip_def)

lemma set_lstrip: "set (lstrip s) \<subseteq> set s"
  by (auto simp: lstrip_def dest: set_dropWhileD)

lemma set_rstrip: "set (rstrip s) \<subseteq> set s"
  by (auto simp: rstrip_def dest: set_dropWhileD)

lemma set_strip: "set (strip s) \<subseteq> set s"
  using set_lstrip set_rstrip by (fastforce simp: strip_def)

lemma rstrip_Cons:
  "rstrip (x # xs) = (if rstrip xs = [] then (if isspace x then [] else [x]) else x # rstrip xs)"
  by (auto simp: rstrip_def dropWhile_append dropWhile_eq_Nil_conv)

lemma lstrip_rstrip: "lstrip (rstrip s) = rstrip (lstrip s)"
proof (induction s)
  case Nil
  show ?case by (simp add: lstrip_def rstrip_def)
next
  case (Cons x xs)
  show ?case
  proof (cases "isspace x")
    case True
    then have l: "lstrip (x # xs) = lstrip xs" by (simp add: lstrip_def)
    show ?thesis
    proof (cases "rstrip xs = []")
      case True
      with \<open>isspace x\<close> have "rstrip (x # xs) = []" by (simp add: rstrip_Cons)
      moreover from True Cons have "rstrip (lstrip xs) = []" by (simp add: lstrip_def)
      ultimately show ?thesis using l by (simp add: lstrip_def)
    next
      case False
      then have "rstrip (x # xs) = x # rstrip xs" by (simp add: rstrip_Cons)
      then have "lstrip (rstrip (x # xs)) = lstrip (rstrip xs)"
        using \<open>isspace x\<close> by (simp add: lstrip_def)
      with Cons l show ?thesis by simp
    qed
  next
    case False
    then have l: "lstrip (x # xs) = x # xs" by (simp add: lstrip_def)
    from False have "rstrip (x # xs) \<noteq> [] \<and> hd (rstrip (x # xs)) = x"
      by (simp add: rstrip_Cons)
    then have "lstrip (rstrip (x # xs)) = rstrip (x # xs)"
      using False by (intro lstrip_hd) simp
    with l show ?thesis by simp
  qed
qed

lemma strip_idem [simp]: "strip (strip s) = strip s"
  by (simp add: strip_def lstrip_rstrip)

lemma strip_lstrip [simp]: "strip (lstrip s) = strip s"
  by (simp add: strip_def)

lemma strip_rstrip [simp]: "strip (rstrip s) = strip s"
  by (simp add: strip_def lstrip_rstrip)

lemma strip_fixed:
  "s \<noteq> [] \<Longrightarrow> \<not> isspace (hd s) \<Longrightarrow> \<not> isspace (last s) \<Longrightarrow> strip s = s"
  by (simp add: strip_def lstrip_hd rstrip_last)

lemma strip_ends:
  assumes "strip s \<noteq> []"
  shows "\<not> isspace (hd (strip s)) \<and> \<not> isspace (last (strip s))"
proof -
  have l: "strip s = dropWhile isspace (rstrip s)"
    using lstrip_rstrip [of s] by (simp add: strip_def lstrip_def)
  have a: "\<not> isspace (hd (strip s))"
    using assms unfolding l by (rule hd_dropWhile)
  have r: "rev (strip s) = dropWhile isspace (rev (lstrip s))"
    by (simp add: strip_def rstrip_def)
  have "dropWhile isspace (rev (lstrip s)) \<noteq> []"
    using assms r by (metis rev_is_Nil_conv)
  then have "\<not> isspace (hd (dropWhile isspace (rev (lstrip s))))"
    by (rule hd_dropWhile)
  then have "\<not> isspace (hd (rev (strip s)))"
    by (metis r)
  then have b: "\<not> isspace (last (strip s))"
    using assms by (simp add: hd_rev)
  from a b show ?thesis by simp
qed

lemma strip_snoc_space: "isspace c \<Longrightarrow> strip (s @ [c]) = strip s"
proof -
  assume c: "isspace c"
  have "strip (s @ [c]) = lstrip (rstrip (s @ [c]))" by (simp add: strip_def lstrip_rstrip)
  also have "rstrip (s @ [c]) = rstrip s" using c by (simp add: rstrip_spaces)
  finally show ?thesis by (simp add: strip_def lstrip_rstrip)
qed

lemma strip_around_nonspace:
  "\<not> isspace y \<Longrightarrow> strip (xs @ y # ys) = lstrip xs @ y # rstrip ys"
  by (simp add: strip_def lstrip_nonspace rstrip_nonspace)

lemma drop_space_dropWhile: "drop_space s = dropWhile isspace s"
  by (induction s) auto

lemma trim_strip: "trim s = strip s"
  by (simp add: trim_def strip_def lstrip_def rstrip_def drop_space_dropWhile)

section \<open>Properties of UTF-8\<close>

text \<open>
  Decoding undoes encoding, and what decodes is the encoding of its text: the bytes of a
  file that loads are the UTF-8 of a text without surrogates.
\<close>

lemma utf8_decode_Nil [simp]: "utf8_decode [] = Some []"
  by (simp add: utf8_decode.simps)

lemma utf8_decode_first:
  "decode_first bs = Some (c, n) \<Longrightarrow>
     utf8_decode bs = map_option ((#) c) (utf8_decode (drop n bs))"
  by (subst utf8_decode.simps) (auto simp: decode_first_def)

lemma utf8_decode_bad: "bs \<noteq> [] \<Longrightarrow> decode_first bs = None \<Longrightarrow> utf8_decode bs = None"
  by (subst utf8_decode.simps) simp

lemma utf8_Nil [simp]: "utf8 [] = []"
  by (simp add: utf8_def)

lemma utf8_Cons: "utf8 (c # s) = utf8_char c @ utf8 s"
  by (simp add: utf8_def)

lemma utf8_append: "utf8 (s @ t) = utf8 s @ utf8 t"
  by (simp add: utf8_def)

lemma div_4096: "(c::nat) div 4096 = c div 64 div 64"
  by (simp add: div_mult2_eq [symmetric])

lemma div_262144: "(c::nat) div 262144 = c div 64 div 64 div 64"
  by (simp add: div_mult2_eq [symmetric])

lemma decode_first_1: "c < 128 \<Longrightarrow> decode_first (c # rest) = Some (c, 1)"
  by (simp add: decode_first_def)

lemma decode_first_2:
  "2 \<le> a \<Longrightarrow> a < 32 \<Longrightarrow> d < 64 \<Longrightarrow>
     decode_first ((192 + a) # (128 + d) # rest) = Some (a * 64 + d, 2)"
  by (simp add: decode_first_def continuation_def)

lemma decode_first_3:
  "a < 16 \<Longrightarrow> b < 64 \<Longrightarrow> d < 64 \<Longrightarrow> (a = 0 \<Longrightarrow> 32 \<le> b) \<Longrightarrow> (a = 13 \<Longrightarrow> b < 32) \<Longrightarrow>
     decode_first ((224 + a) # (128 + b) # (128 + d) # rest)
       = Some ((a * 64 + b) * 64 + d, 3)"
  by (simp add: decode_first_def continuation_def)

lemma decode_first_4:
  "a < 5 \<Longrightarrow> b < 64 \<Longrightarrow> e < 64 \<Longrightarrow> d < 64 \<Longrightarrow> (a = 0 \<Longrightarrow> 16 \<le> b) \<Longrightarrow> (a = 4 \<Longrightarrow> b < 16) \<Longrightarrow>
     decode_first ((240 + a) # (128 + b) # (128 + e) # (128 + d) # rest)
       = Some (((a * 64 + b) * 64 + e) * 64 + d, 4)"
  by (simp add: decode_first_def continuation_def)

lemma decode_first_utf8_char:
  assumes "encodable c"
  shows "decode_first (utf8_char c @ rest) = Some (c, length (utf8_char c))"
proof -
  define x where "x = c div 64"
  define d where "d = c mod 64"
  define y where "y = x div 64"
  define b where "b = x mod 64"
  define z where "z = y div 64"
  define e where "e = y mod 64"
  have c: "c = x * 64 + d" "d < 64" by (simp_all add: x_def d_def)
  have x: "x = y * 64 + b" "b < 64" by (simp_all add: y_def b_def)
  have y: "y = z * 64 + e" "e < 64" by (simp_all add: z_def e_def)
  have s: "c < 55296 \<or> 57344 \<le> c" and t: "c < 1114112"
    using assms by (auto simp: encodable_def)
  consider "c < 128" | "128 \<le> c" "c < 2048" | "2048 \<le> c" "c < 65536" | "65536 \<le> c"
    by linarith
  then show ?thesis
  proof cases
    case 1
    then show ?thesis by (simp add: utf8_char_def decode_first_1)
  next
    case 2
    have u: "utf8_char c = [192 + x, 128 + d]"
      using 2 by (simp add: utf8_char_def x_def d_def)
    have "2 \<le> x" "x < 32" using 2 c by arith+
    then have "decode_first ((192 + x) # (128 + d) # rest) = Some (x * 64 + d, 2)"
      using c(2) by (rule decode_first_2)
    then show ?thesis by (simp add: u c(1) [symmetric])
  next
    case 3
    have u: "utf8_char c = [224 + y, 128 + b, 128 + d]"
      using 3 by (simp add: utf8_char_def div_4096 x_def d_def y_def b_def)
    have "y < 16" using 3 c x by arith
    moreover have "32 \<le> b" if "y = 0" using that 3 c x by arith
    moreover have "b < 32" if "y = 13" using that s c x by arith
    ultimately have "decode_first ((224 + y) # (128 + b) # (128 + d) # rest)
                       = Some ((y * 64 + b) * 64 + d, 3)"
      using x(2) c(2) by (intro decode_first_3)
    then show ?thesis by (simp add: u c(1) [symmetric] x(1) [symmetric])
  next
    case 4
    have u: "utf8_char c = [240 + z, 128 + e, 128 + b, 128 + d]"
      using 4
      by (simp add: utf8_char_def div_4096 div_262144 x_def d_def y_def b_def z_def e_def)
    have "z < 5" using t c x y by arith
    moreover have "16 \<le> e" if "z = 0" using that 4 c x y by arith
    moreover have "e < 16" if "z = 4" using that t c x y by arith
    ultimately have
      "decode_first ((240 + z) # (128 + e) # (128 + b) # (128 + d) # rest)
         = Some (((z * 64 + e) * 64 + b) * 64 + d, 4)"
      using y(2) x(2) c(2) by (intro decode_first_4)
    then show ?thesis
      by (simp add: u c(1) [symmetric] x(1) [symmetric] y(1) [symmetric])
  qed
qed

lemma utf8_char_not_Nil: "utf8_char c \<noteq> []"
  by (simp add: utf8_char_def)

lemma utf8_decode_utf8_char:
  "encodable c \<Longrightarrow> utf8_decode (utf8_char c @ rest) = map_option ((#) c) (utf8_decode rest)"
  using utf8_decode_first [OF decode_first_utf8_char, of c rest] by simp

lemma utf8_decode_utf8: "list_all encodable s \<Longrightarrow> utf8_decode (utf8 s) = Some s"
  by (induction s) (simp_all add: utf8_Cons utf8_decode_utf8_char)

lemma utf8_char_1: "c < 128 \<Longrightarrow> utf8_char c = [c] \<and> encodable c"
  by (simp add: utf8_char_def encodable_def)

lemma utf8_char_2:
  assumes "2 \<le> a" "a < 32" "d < 64"
  shows "utf8_char (a * 64 + d) = [192 + a, 128 + d] \<and> encodable (a * 64 + d)"
proof -
  have r: "128 \<le> a * 64 + d" "a * 64 + d < 2048" using assms by arith+
  have "(a * 64 + d) div 64 = a" "(a * 64 + d) mod 64 = d" using assms by simp_all
  with r show ?thesis by (simp add: utf8_char_def encodable_def)
qed

lemma div_mod_64:
  "d < 64 \<Longrightarrow> (x * 64 + d) div 64 = (x::nat)" "d < 64 \<Longrightarrow> (x * 64 + d) mod 64 = d"
  by simp_all

lemma utf8_char_3:
  assumes "a < 16" "b < 64" "d < 64" "a = 0 \<Longrightarrow> 32 \<le> b" "a = 13 \<Longrightarrow> b < 32"
  shows "utf8_char ((a * 64 + b) * 64 + d) = [224 + a, 128 + b, 128 + d] \<and>
         encodable ((a * 64 + b) * 64 + d)"
proof -
  define c where "c = (a * 64 + b) * 64 + d"
  have e: "c = a * 4096 + b * 64 + d" by (simp add: c_def)
  have lo: "2048 \<le> c"
  proof (cases "a = 0")
    case True
    then have "32 \<le> b" by (rule assms(4))
    then show ?thesis unfolding e by linarith
  next
    case False
    then have "1 \<le> a" by simp
    then show ?thesis unfolding e by linarith
  qed
  have hi: "c < 65536" using assms(1-3) unfolding e by linarith
  have s: "c < 55296 \<or> 57344 \<le> c"
  proof (cases "a = 13")
    case True
    then have "b < 32" by (rule assms(5))
    with True assms(3) show ?thesis unfolding e by linarith
  next
    case False
    then have "a \<le> 12 \<or> 14 \<le> a" by linarith
    with assms(2,3) show ?thesis unfolding e by linarith
  qed
  have 1: "c div 64 = a * 64 + b" "c mod 64 = d"
    unfolding c_def using assms(3) by (rule div_mod_64)+
  have 2: "c div 4096 = a" "c div 64 mod 64 = b"
    unfolding div_4096 1 using assms(2) by (rule div_mod_64)+
  have m: "(a * 64 + b) mod 64 = b" using assms(2) by (rule div_mod_64)
  have n: "\<not> c < 128" "\<not> c < 2048" "c < 1114112" using lo hi by linarith+
  show ?thesis
    unfolding c_def [symmetric]
    by (simp only: utf8_char_def encodable_def n hi s 1 2 m if_True if_False simp_thms)
qed

lemma utf8_char_4:
  assumes "a < 5" "b < 64" "e < 64" "d < 64" "a = 0 \<Longrightarrow> 16 \<le> b" "a = 4 \<Longrightarrow> b < 16"
  shows "utf8_char (((a * 64 + b) * 64 + e) * 64 + d)
           = [240 + a, 128 + b, 128 + e, 128 + d] \<and>
         encodable (((a * 64 + b) * 64 + e) * 64 + d)"
proof -
  define c where "c = ((a * 64 + b) * 64 + e) * 64 + d"
  have q: "c = a * 262144 + b * 4096 + e * 64 + d" by (simp add: c_def)
  have lo: "65536 \<le> c"
  proof (cases "a = 0")
    case True
    then have "16 \<le> b" by (rule assms(5))
    then show ?thesis unfolding q by linarith
  next
    case False
    then have "1 \<le> a" by simp
    then show ?thesis unfolding q by linarith
  qed
  have hi: "c < 1114112"
  proof (cases "a = 4")
    case True
    then have "b < 16" by (rule assms(6))
    with True assms(3,4) show ?thesis unfolding q by linarith
  next
    case False
    then have "a \<le> 3" using assms(1) by linarith
    with assms(2-4) show ?thesis unfolding q by linarith
  qed
  have 1: "c div 64 = (a * 64 + b) * 64 + e" "c mod 64 = d"
    unfolding c_def using assms(4) by (rule div_mod_64)+
  have 2: "c div 64 div 64 = a * 64 + b" "c div 64 mod 64 = e"
    unfolding 1 using assms(3) by (rule div_mod_64)+
  have 3: "c div 64 div 64 div 64 = a" "c div 64 div 64 mod 64 = b"
    unfolding 2 using assms(2) by (rule div_mod_64)+
  have 4: "c div 262144 = a" "c div 4096 mod 64 = b"
    unfolding div_262144 div_4096 by (rule 3)+
  have m: "((a * 64 + b) * 64 + e) mod 64 = e" using assms(3) by (rule div_mod_64)
  have n: "\<not> c < 128" "\<not> c < 2048" "\<not> c < 65536" "\<not> c < 55296" "57344 \<le> c"
    using lo by linarith+
  show ?thesis
    unfolding c_def [symmetric]
    by (simp only: utf8_char_def encodable_def n hi 1 2 4 m if_True if_False simp_thms)
qed

lemma decode_first_inverse:
  assumes "decode_first bs = Some (c, n)"
  shows "encodable c \<and> utf8_char c = take n bs \<and> 0 < n \<and> n \<le> length bs"
proof (cases bs)
  case Nil
  with assms show ?thesis by (simp add: decode_first_def)
next
  case (Cons b0 r0)
  consider "b0 < 128" | "194 \<le> b0" "b0 < 224" | "224 \<le> b0" "b0 < 240"
    | "240 \<le> b0" "b0 < 245" | "128 \<le> b0" "b0 < 194" | "245 \<le> b0"
    by linarith
  then show ?thesis
  proof cases
    case 1
    with assms Cons have "c = b0" "n = 1" by (simp_all add: decode_first_def)
    with 1 Cons show ?thesis by (simp add: utf8_char_1)
  next
    case 2
    with assms Cons obtain b1 r1 where r0: "r0 = b1 # r1"
      by (cases r0) (simp_all add: decode_first_def)
    from assms Cons 2 r0 have k: "continuation b1" "c = (b0 - 192) * 64 + (b1 - 128)" "n = 2"
      by (simp_all add: decode_first_def split: if_splits)
    define a where "a = b0 - 192"
    define d where "d = b1 - 128"
    have c1: "128 \<le> b1" "b1 < 192" using k(1) by (simp_all add: continuation_def)
    have b: "b0 = 192 + a" "b1 = 128 + d" "2 \<le> a" "a < 32" "d < 64"
      using 2 c1 unfolding a_def d_def by arith+
    show ?thesis
      using utf8_char_2 [OF b(3-5)] k(2,3) Cons r0 b(1,2)
      by (simp add: a_def [symmetric] d_def [symmetric])
  next
    case 3
    with assms Cons obtain b1 b2 r2 where r0: "r0 = b1 # b2 # r2"
      by (cases r0; cases "tl r0") (simp_all add: decode_first_def)
    from assms Cons 3 r0 have k:
      "(if b0 = 224 then 160 else 128) \<le> b1" "b1 < (if b0 = 237 then 160 else 192)"
      "continuation b2" "c = ((b0 - 224) * 64 + (b1 - 128)) * 64 + (b2 - 128)" "n = 3"
      by (simp_all add: decode_first_def split: if_splits)
    define a where "a = b0 - 224"
    define b where "b = b1 - 128"
    define d where "d = b2 - 128"
    have 128: "128 \<le> b1" using k(1) by (simp split: if_splits)
    have 192: "b1 < 192" using k(2) by (simp split: if_splits)
    have c2: "128 \<le> b2" "b2 < 192" using k(3) by (simp_all add: continuation_def)
    have e: "b0 = 224 + a" "b1 = 128 + b" "b2 = 128 + d"
      using 3 128 c2 unfolding a_def b_def d_def by arith+
    have r: "a < 16" "b < 64" "d < 64"
      using 3 192 c2 unfolding a_def b_def d_def by arith+
    have "160 \<le> b1" if "a = 0" using that k(1) e(1) by simp
    then have lo: "32 \<le> b" if "a = 0" using that e(2) by fastforce
    have "b1 < 160" if "a = 13" using that k(2) e(1) by simp
    then have hi: "b < 32" if "a = 13" using that e(2) by fastforce
    show ?thesis
      using utf8_char_3 [OF r lo hi] k(4,5) Cons r0 e
      by (simp add: a_def [symmetric] b_def [symmetric] d_def [symmetric])
  next
    case 4
    with assms Cons obtain b1 b2 b3 r3 where r0: "r0 = b1 # b2 # b3 # r3"
      by (cases r0; cases "tl r0"; cases "tl (tl r0)") (simp_all add: decode_first_def)
    from assms Cons 4 r0 have k:
      "(if b0 = 240 then 144 else 128) \<le> b1" "b1 < (if b0 = 244 then 144 else 192)"
      "continuation b2" "continuation b3"
      "c = (((b0 - 240) * 64 + (b1 - 128)) * 64 + (b2 - 128)) * 64 + (b3 - 128)" "n = 4"
      by (simp_all add: decode_first_def split: if_splits)
    define a where "a = b0 - 240"
    define b where "b = b1 - 128"
    define e where "e = b2 - 128"
    define d where "d = b3 - 128"
    have 128: "128 \<le> b1" using k(1) by (simp split: if_splits)
    have 192: "b1 < 192" using k(2) by (simp split: if_splits)
    have c2: "128 \<le> b2" "b2 < 192" using k(3) by (simp_all add: continuation_def)
    have c3: "128 \<le> b3" "b3 < 192" using k(4) by (simp_all add: continuation_def)
    have q: "b0 = 240 + a" "b1 = 128 + b" "b2 = 128 + e" "b3 = 128 + d"
      using 4 128 c2 c3 unfolding a_def b_def e_def d_def by arith+
    have r: "a < 5" "b < 64" "e < 64" "d < 64"
      using 4 192 c2 c3 unfolding a_def b_def e_def d_def by arith+
    have "144 \<le> b1" if "a = 0" using that k(1) q(1) by simp
    then have lo: "16 \<le> b" if "a = 0" using that q(2) by fastforce
    have "b1 < 144" if "a = 4" using that k(2) q(1) by simp
    then have hi: "b < 16" if "a = 4" using that q(2) by fastforce
    show ?thesis
      using utf8_char_4 [OF r lo hi] k(5,6) Cons r0 q
      by (simp add: a_def [symmetric] b_def [symmetric] e_def [symmetric] d_def [symmetric])
  next
    case 5
    with assms Cons show ?thesis by (simp add: decode_first_def)
  next
    case 6
    with assms Cons show ?thesis by (simp add: decode_first_def)
  qed
qed

lemma utf8_decode_inverse:
  "utf8_decode bs = Some s \<Longrightarrow> list_all encodable s \<and> utf8 s = bs"
proof (induction "length bs" arbitrary: bs s rule: less_induct)
  case less
  show ?case
  proof (cases "bs = []")
    case True
    with less.prems show ?thesis by simp
  next
    case False
    show ?thesis
    proof (cases "decode_first bs")
      case None
      with False less.prems show ?thesis by (simp add: utf8_decode_bad)
    next
      case (Some p)
      obtain c n where p: "p = (c, n)" by (cases p)
      have f: "decode_first bs = Some (c, n)" using Some p by simp
      have i: "encodable c" "utf8_char c = take n bs" "0 < n" "n \<le> length bs"
        using decode_first_inverse [OF f] by simp_all
      from less.prems utf8_decode_first [OF f] obtain s' where
        s: "s = c # s'" "utf8_decode (drop n bs) = Some s'"
        by auto
      have "length (drop n bs) < length bs" using i(3,4) False by simp
      then have "list_all encodable s' \<and> utf8 s' = drop n bs"
        using s(2) by (rule less.hyps)
      with i s(1) show ?thesis by (simp add: utf8_Cons)
    qed
  qed
qed

lemma utf8_decode_ascii: "list_all (\<lambda>b. b < 128) bs \<Longrightarrow> utf8_decode bs = Some bs"
proof (induction bs)
  case Nil
  show ?case by simp
next
  case (Cons b bs)
  then have "decode_first (b # bs) = Some (b, 1)" by (simp add: decode_first_1)
  from utf8_decode_first [OF this] Cons show ?case by simp
qed

lemma utf8_ascii: "list_all (\<lambda>c. c < 128) s \<Longrightarrow> utf8 s = s"
  by (induction s) (simp_all add: utf8_Cons utf8_char_def)

section \<open>Properties of reading and parsing\<close>

lemma universal_newlines_no_CR: "CR \<notin> set s \<Longrightarrow> universal_newlines s = s"
  by (induction s rule: universal_newlines.induct) auto

lemma universal_newlines_CR_free: "CR \<notin> set (universal_newlines s)"
  by (induction s rule: universal_newlines.induct) auto

lemma lines_from_line:
  "LF \<notin> set l \<Longrightarrow> lines_from cur (l @ LF # rest) = (cur @ l @ [LF]) # lines_from [] rest"
  by (induction l arbitrary: cur) auto

lemma lines_from_concat:
  "list_all (\<lambda>l. LF \<notin> set l) ls \<Longrightarrow>
     lines_from [] (concat (map (\<lambda>l. l @ [LF]) ls)) = map (\<lambda>l. l @ [LF]) ls"
  by (induction ls) (auto simp: lines_from_line)

lemma lines_from_shape:
  "LF \<notin> set cur \<Longrightarrow> l \<in> set (lines_from cur s) \<Longrightarrow>
     \<exists>body. (l = body @ [LF] \<or> l = body) \<and> LF \<notin> set body \<and> set body \<subseteq> set cur \<union> set s"
proof (induction s arbitrary: cur)
  case Nil
  then show ?case by (auto split: if_splits)
next
  case (Cons c cs)
  show ?case
  proof (cases "c = LF")
    case True
    with Cons.prems have "l = cur @ [LF] \<or> l \<in> set (lines_from [] cs)" by auto
    then show ?thesis
    proof
      assume "l = cur @ [LF]"
      with Cons.prems show ?thesis by auto
    next
      assume "l \<in> set (lines_from [] cs)"
      with Cons.IH [of "[]"] obtain body where
        "(l = body @ [LF] \<or> l = body) \<and> LF \<notin> set body \<and> set body \<subseteq> set [] \<union> set cs"
        by auto
      then show ?thesis by auto
    qed
  next
    case False
    with Cons.prems have "l \<in> set (lines_from (cur @ [c]) cs)" by auto
    moreover from False Cons.prems have "LF \<notin> set (cur @ [c])" by auto
    ultimately obtain body where
      "(l = body @ [LF] \<or> l = body) \<and> LF \<notin> set body \<and> set body \<subseteq> set (cur @ [c]) \<union> set cs"
      using Cons.IH [of "cur @ [c]"] by blast
    then show ?thesis by auto
  qed
qed

lemma set_universal_newlines: "set (universal_newlines s) \<subseteq> insert LF (set s)"
  by (induction s rule: universal_newlines.induct) auto

lemma file_lines_shape:
  assumes "l \<in> set (file_lines content)"
  shows "\<exists>body. (l = body @ [LF] \<or> l = body) \<and> newline_free body \<and> set body \<subseteq> set content"
proof -
  have m: "l \<in> set (lines_from [] (universal_newlines content))"
    using assms by (simp add: file_lines_def)
  have "\<exists>body. (l = body @ [LF] \<or> l = body) \<and> LF \<notin> set body \<and>
          set body \<subseteq> set [] \<union> set (universal_newlines content)"
    by (rule lines_from_shape [OF _ m]) simp
  then obtain body where
    b: "l = body @ [LF] \<or> l = body" "LF \<notin> set body"
       "set body \<subseteq> set [] \<union> set (universal_newlines content)"
    by blast
  have "CR \<notin> set body"
    using b(3) universal_newlines_CR_free [of content] by auto
  moreover have "set body \<subseteq> set content"
    using b(2,3) set_universal_newlines [of content] by auto
  ultimately show ?thesis using b(1,2) unfolding newline_free_def by blast
qed

lemma split1_present:
  "sep \<in> set s \<Longrightarrow>
     split1 sep s = [takeWhile (\<lambda>c. c \<noteq> sep) s, tl (dropWhile (\<lambda>c. c \<noteq> sep) s)]"
  by (induction s) auto

lemma split1_absent: "sep \<notin> set s \<Longrightarrow> split1 sep s = [s]"
  by (induction s) auto

lemma text_author_eq:
  "text_author raw =
     Inr (if BAR \<in> set raw
          then (takeWhile (\<lambda>c. c \<noteq> BAR) raw, tl (dropWhile (\<lambda>c. c \<noteq> BAR) raw))
          else (raw, str ''Unknown''))"
  by (simp add: text_author_def unpack2_def split1_present)

lemma strip_Unknown [simp]: "strip (str ''Unknown'') = str ''Unknown''"
  by (simp add: str_def strip_def lstrip_def rstrip_def isspace_def)

lemma blank_iff: "blank line \<longleftrightarrow> strip line = []"
proof
  assume "blank line"
  then have "dropWhile isspace line = []" by (simp add: blank_def list_all_iff)
  then show "strip line = []" by (simp only: strip_def lstrip_def rstrip_def) simp
next
  assume "strip line = []"
  then have d: "\<forall>c\<in>set (dropWhile isspace line). isspace c"
    by (simp add: strip_def lstrip_def rstrip_def)
  have "dropWhile isspace line = []"
  proof (rule ccontr)
    assume ne: "dropWhile isspace line \<noteq> []"
    then have "\<not> isspace (hd (dropWhile isspace line))" by (rule hd_dropWhile)
    moreover from ne have "hd (dropWhile isspace line) \<in> set (dropWhile isspace line)"
      by simp
    ultimately show False using d by blast
  qed
  then show "blank line" by (simp add: blank_def list_all_iff)
qed

lemma BAR_in_strip: "BAR \<in> set (strip line) \<longleftrightarrow> BAR \<in> set line"
proof
  assume "BAR \<in> set (strip line)"
  then show "BAR \<in> set line" using set_strip by blast
next
  assume "BAR \<in> set line"
  then obtain pre post where "line = pre @ BAR # post"
    by (meson split_list)
  then show "BAR \<in> set (strip line)"
    by (simp add: strip_around_nonspace)
qed

lemma takeWhile_first: "x \<notin> set pre \<Longrightarrow> takeWhile (\<lambda>c. c \<noteq> x) (pre @ x # post) = pre"
  by (induction pre) auto

lemma dropWhile_first:
  "x \<notin> set pre \<Longrightarrow> dropWhile (\<lambda>c. c \<noteq> x) (pre @ x # post) = x # post"
  by (induction pre) auto

lemma spec_quote_of_line_split:
  "BAR \<notin> set pre \<Longrightarrow> spec_quote_of_line (pre @ BAR # post) = (strip pre, strip post)"
  by (simp add: spec_quote_of_line_def trim_strip takeWhile_first dropWhile_first)

lemma spec_quote_of_line_bare:
  "BAR \<notin> set line \<Longrightarrow> spec_quote_of_line line = (strip line, str ''Unknown'')"
  by (simp add: spec_quote_of_line_def trim_strip)

lemma parse_stripped_line:
  "(case text_author (strip line) of
      Inl e \<Rightarrow> Inl e
    | Inr (text, author) \<Rightarrow> Inr (strip text, strip author))
   = Inr (spec_quote_of_line line)"
proof (cases "BAR \<in> set line")
  case True
  then obtain pre post where l: "line = pre @ BAR # post" "BAR \<notin> set pre"
    by (meson split_list_first)
  have s: "strip line = lstrip pre @ BAR # rstrip post"
    using l by (simp add: strip_around_nonspace)
  have n: "BAR \<notin> set (lstrip pre)" using l set_lstrip by blast
  show ?thesis
    unfolding text_author_eq s using n l
    by (simp add: takeWhile_first dropWhile_first spec_quote_of_line_split)
next
  case False
  then have "BAR \<notin> set (strip line)" by (simp add: BAR_in_strip)
  with False show ?thesis
    by (simp add: text_author_eq spec_quote_of_line_bare)
qed

lemma load_loop_eq:
  "load_loop ls quotes =
     Inr (quotes @ map spec_quote_of_line (filter (\<lambda>line. \<not> blank line) ls))"
proof (induction ls arbitrary: quotes)
  case Nil
  show ?case by simp
next
  case (Cons raw0 rest)
  show ?case
  proof (cases "strip raw0 = []")
    case True
    then show ?thesis by (simp add: Cons blank_iff)
  next
    case False
    have "load_loop (raw0 # rest) quotes =
            load_loop rest (quotes @ [spec_quote_of_line raw0])"
      using False parse_stripped_line [of raw0]
      by (auto simp: Let_def split: sum.splits prod.splits)
    with False show ?thesis by (simp add: Cons blank_iff)
  qed
qed

lemma spec_quote_of_line_LF: "spec_quote_of_line (body @ [LF]) = spec_quote_of_line body"
proof (cases "BAR \<in> set body")
  case True
  then obtain pre post where b: "body = pre @ BAR # post" "BAR \<notin> set pre"
    by (meson split_list_first)
  have "spec_quote_of_line (pre @ BAR # (post @ [LF])) = (strip pre, strip (post @ [LF]))"
    using b(2) by (rule spec_quote_of_line_split)
  then show ?thesis
    using b by (simp add: spec_quote_of_line_split strip_snoc_space)
next
  case False
  then show ?thesis
    by (simp add: spec_quote_of_line_bare strip_snoc_space)
qed

lemma blank_LF: "blank (body @ [LF]) \<longleftrightarrow> blank body"
  by (simp add: blank_def)

text \<open>
  The lines that the program reads, with their line feeds and after the translation of
  the carriage returns, give the quotes that the lines of the specification give.
\<close>

lemma quotes_of_lines:
  "map spec_quote_of_line (filter (\<lambda>l. \<not> blank l) (lines_from cur (universal_newlines s)))
     = map spec_quote_of_line (filter (\<lambda>l. \<not> blank l) (spec_lines_from cur s))"
proof (induction cur s rule: spec_lines_from.induct)
  case (1 cur)
  show ?case by simp
next
  case (2 cur c)
  show ?case by (simp add: blank_LF spec_quote_of_line_LF)
next
  case (3 cur c d cs)
  consider "c = CR \<and> d = LF" | "\<not> (c = CR \<and> d = LF)" "c = LF \<or> c = CR"
    | "\<not> (c = CR \<and> d = LF)" "\<not> (c = LF \<or> c = CR)"
    by blast
  then show ?case
  proof cases
    case 1
    with 3(1) show ?thesis by (simp add: blank_LF spec_quote_of_line_LF)
  next
    case 2
    with 3(2) show ?thesis by (auto simp: blank_LF spec_quote_of_line_LF)
  next
    case 3
    with "3.IH"(3) show ?thesis by simp
  qed
qed

lemma spec_load_file_lines:
  "spec_load content
     = map spec_quote_of_line (filter (\<lambda>line. \<not> blank line) (file_lines content))"
  by (simp add: spec_load_def spec_lines_def file_lines_def quotes_of_lines)

lemma load_quotes_existing:
  "quotes_file w = Some bytes \<Longrightarrow> utf8_decode bytes = Some content \<Longrightarrow>
     load_quotes w = Inr (spec_load content, w)"
  by (simp add: load_quotes_def ensure_quotes_file_def load_loop_eq spec_load_file_lines)

lemma load_quotes_undecodable:
  "quotes_file w = Some bytes \<Longrightarrow> utf8_decode bytes = None \<Longrightarrow>
     load_quotes w = Inl (UnicodeDecodeError, w)"
  by (simp add: load_quotes_def ensure_quotes_file_def)

section \<open>Saving, and loading what was saved\<close>

lemma ensure_quotes_file_absent:
  "quotes_file w = None \<Longrightarrow>
     ensure_quotes_file w = w\<lparr>quotes_file := Some default_file, writes := Suc (writes w)\<rparr>"
  by (simp add: ensure_quotes_file_def default_file_def)

lemma ensure_quotes_file_present:
  "quotes_file w = Some content \<Longrightarrow> ensure_quotes_file w = w"
  by (simp add: ensure_quotes_file_def)

lemma load_quotes_world:
  "load_quotes w = Inr (quotes, w1) \<Longrightarrow> w1 = ensure_quotes_file w"
  by (auto simp: load_quotes_def Let_def split: option.splits sum.splits)

lemma load_quotes_content:
  assumes "load_quotes w = Inr (quotes, w1)"
  shows "\<exists>bytes content. quotes_file w1 = Some bytes \<and> utf8_decode bytes = Some content \<and>
           quotes = spec_load content"
  using assms
  by (auto simp: load_quotes_def Let_def load_loop_eq spec_load_file_lines
      split: option.splits sum.splits)

lemma fold_append_concat: "fold (\<lambda>x f. f @ g x) xs acc = acc @ concat (map g xs)"
  by (induction xs arbitrary: acc) auto

lemma lower_Unknown: "lower (str ''Unknown'') = str ''unknown''"
  by (simp add: lower_def lower_char_def str_def)

lemma str_bar: "str ''|'' = [BAR]"
  by (simp add: str_def BAR_def)

lemma save_line_eq: "save_line q = spec_line_of_quote q @ [LF]"
  by (cases q)
     (simp add: save_line_def spec_line_of_quote_def equal_ignoring_case_def lower_Unknown
        str_bar)

lemma encodable_BAR_LF [simp]: "encodable BAR" "encodable LF"
  by (simp_all add: encodable_def BAR_def LF_def)

lemma save_line_encodable: "writable q \<Longrightarrow> list_all encodable (save_line q)"
  by (cases q) (simp add: writable_def save_line_def)

lemma lower_char_ascii: "lower_char c < 128 \<Longrightarrow> encodable c"
  by (auto simp: lower_char_def encodable_def split: if_splits)

lemma lower_unknown_encodable:
  assumes "lower b = str ''unknown''"
  shows "list_all encodable b"
proof -
  have "list_all (\<lambda>c. c < 128) (lower b)"
    unfolding assms by (simp add: str_def)
  then show ?thesis
    by (auto simp: lower_def list_all_iff intro: lower_char_ascii)
qed

lemma save_line_unencodable: "\<not> writable q \<Longrightarrow> \<not> list_all encodable (save_line q)"
  using lower_unknown_encodable by (cases q) (auto simp: writable_def save_line_def)

lemma save_loop_writable:
  "list_all writable quotes \<Longrightarrow> save_loop quotes f = Inr (f @ utf8 (spec_save quotes))"
proof (induction quotes arbitrary: f)
  case Nil
  show ?case by (simp add: spec_save_def)
next
  case (Cons q quotes)
  then have "write_text (save_line q) f = Inr (f @ utf8 (save_line q))"
    by (simp add: write_text_def save_line_encodable)
  with Cons show ?case
    by (simp add: spec_save_def utf8_append utf8_Cons save_line_eq)
qed

lemma save_loop_raises:
  "list_all writable good \<Longrightarrow> \<not> writable bad \<Longrightarrow>
     save_loop (good @ bad # rest) f = Inl (UnicodeEncodeError, f @ utf8 (spec_save good))"
proof (induction good arbitrary: f)
  case Nil
  then show ?case by (simp add: spec_save_def write_text_def save_line_unencodable)
next
  case (Cons q good)
  then have "write_text (save_line q) f = Inr (f @ utf8 (save_line q))"
    by (simp add: write_text_def save_line_encodable)
  with Cons show ?case
    by (simp add: spec_save_def utf8_append utf8_Cons save_line_eq)
qed

lemma save_quotes_writable:
  "list_all writable quotes \<Longrightarrow>
     save_quotes quotes w
       = Inr (w\<lparr>quotes_file := Some (utf8 (spec_save quotes)), writes := Suc (writes w)\<rparr>)"
  by (simp add: save_quotes_def save_loop_writable)

lemma save_quotes_raises:
  "list_all writable good \<Longrightarrow> \<not> writable bad \<Longrightarrow>
     save_quotes (good @ bad # rest) w
       = Inl (UnicodeEncodeError,
              w\<lparr>quotes_file := Some (utf8 (spec_save good)), writes := Suc (writes w)\<rparr>)"
  by (simp add: save_quotes_def save_loop_raises)

lemma spec_save_encodable:
  "list_all writable quotes \<Longrightarrow> list_all encodable (spec_save quotes)"
proof -
  assume a: "list_all writable quotes"
  have "list_all encodable (spec_line_of_quote q @ [LF])" if "q \<in> set quotes" for q
    using a that save_line_encodable [of q] by (simp add: list_all_iff save_line_eq)
  then show ?thesis by (auto simp: spec_save_def list_all_iff)
qed

lemma newline_free_Unknown: "newline_free (str ''Unknown'')"
  by (simp add: newline_free_def str_def LF_def CR_def)

lemma newline_free_subset: "newline_free s \<Longrightarrow> set t \<subseteq> set s \<Longrightarrow> newline_free t"
  by (auto simp: newline_free_def)

lemma encodable_Unknown: "list_all encodable (str ''Unknown'')"
  by (simp add: str_def encodable_def)

lemma encodable_subset: "list_all encodable s \<Longrightarrow> set t \<subseteq> set s \<Longrightarrow> list_all encodable t"
  by (auto simp: list_all_iff)

lemma as_loaded_spec_quote:
  assumes "newline_free body" and "list_all encodable body"
  shows "as_loaded (spec_quote_of_line body)"
proof (cases "BAR \<in> set body")
  case True
  then obtain pre post where b: "body = pre @ BAR # post" "BAR \<notin> set pre"
    by (meson split_list_first)
  have q: "spec_quote_of_line body = (strip pre, strip post)"
    using b by (simp add: spec_quote_of_line_split)
  have "set (strip pre) \<subseteq> set pre" "set (strip post) \<subseteq> set post"
    by (rule set_strip)+
  then have s: "set (strip pre) \<subseteq> set body" "set (strip post) \<subseteq> set body"
       "BAR \<notin> set (strip pre)"
    using b by auto
  show ?thesis
    unfolding q as_loaded_def writable_def
    using s newline_free_subset [OF assms(1)] encodable_subset [OF assms(2)] by simp
next
  case False
  have s: "set (strip body) \<subseteq> set body" by (rule set_strip)
  with False have "BAR \<notin> set (strip body)" by blast
  with False s show ?thesis
    by (simp add: spec_quote_of_line_bare as_loaded_def writable_def newline_free_Unknown
          encodable_Unknown newline_free_subset [OF assms(1)] encodable_subset [OF assms(2)])
qed

lemma as_loaded_spec_load:
  assumes "list_all encodable content"
  shows "list_all as_loaded (spec_load content)"
proof -
  have "as_loaded (spec_quote_of_line l)" if "l \<in> set (file_lines content)" for l
  proof -
    from that obtain body where
      b: "l = body @ [LF] \<or> l = body" "newline_free body" "set body \<subseteq> set content"
      using file_lines_shape by blast
    then have "spec_quote_of_line l = spec_quote_of_line body"
      by (auto simp: spec_quote_of_line_LF)
    with b(2) encodable_subset [OF assms b(3)] show ?thesis
      by (simp add: as_loaded_spec_quote)
  qed
  then show ?thesis by (simp add: spec_load_file_lines list_all_iff)
qed

lemma as_loaded_load_quotes:
  assumes "load_quotes w = Inr (quotes, w1)"
  shows "list_all as_loaded quotes"
proof -
  from load_quotes_content [OF assms] obtain bytes content where
    c: "utf8_decode bytes = Some content" "quotes = spec_load content"
    by blast
  from utf8_decode_inverse [OF c(1)] have "list_all encodable content" by simp
  then show ?thesis unfolding c(2) by (rule as_loaded_spec_load)
qed

lemma spec_line_newline_free: "as_loaded q \<Longrightarrow> newline_free (spec_line_of_quote q)"
  by (auto simp: as_loaded_def spec_line_of_quote_def newline_free_def str_bar)

lemma reload_line:
  assumes "as_loaded q" "fst q \<noteq> []"
  shows "\<not> blank (spec_line_of_quote q) \<and> spec_quote_of_line (spec_line_of_quote q) = reloaded q"
proof (cases "snd q \<noteq> [] \<and> lower (snd q) \<noteq> str ''unknown''")
  case True
  then have l: "spec_line_of_quote q = fst q @ BAR # snd q"
    by (simp add: spec_line_of_quote_def equal_ignoring_case_def lower_Unknown str_bar)
  have "strip (fst q @ BAR # snd q) = lstrip (fst q) @ BAR # rstrip (snd q)"
    by (simp add: strip_around_nonspace)
  then have "\<not> blank (spec_line_of_quote q)" by (simp add: blank_iff l)
  moreover have "spec_quote_of_line (spec_line_of_quote q) = reloaded q"
    using assms True by (simp add: l spec_quote_of_line_split as_loaded_def reloaded_def)
  ultimately show ?thesis by simp
next
  case False
  then have l: "spec_line_of_quote q = fst q"
    by (auto simp: spec_line_of_quote_def equal_ignoring_case_def lower_Unknown)
  from assms have "strip (fst q) = fst q" "BAR \<notin> set (fst q)" by (simp_all add: as_loaded_def)
  with assms False show ?thesis
    by (auto simp: l blank_iff spec_quote_of_line_bare reloaded_def)
qed

lemma file_lines_spec_save:
  assumes "list_all as_loaded quotes"
  shows "file_lines (spec_save quotes) = map (\<lambda>q. spec_line_of_quote q @ [LF]) quotes"
proof -
  have nf: "newline_free (spec_line_of_quote q)" if "q \<in> set quotes" for q
    using assms that by (simp add: list_all_iff spec_line_newline_free)
  then have "CR \<notin> set (spec_save quotes)"
    by (auto simp: spec_save_def newline_free_def)
  then have u: "universal_newlines (spec_save quotes) = spec_save quotes"
    by (rule universal_newlines_no_CR)
  have "list_all (\<lambda>l. LF \<notin> set l) (map spec_line_of_quote quotes)"
    using nf by (simp add: list_all_iff newline_free_def)
  then have "lines_from [] (concat (map (\<lambda>l. l @ [LF]) (map spec_line_of_quote quotes)))
               = map (\<lambda>l. l @ [LF]) (map spec_line_of_quote quotes)"
    by (rule lines_from_concat)
  then show ?thesis
    unfolding file_lines_def u by (simp add: spec_save_def comp_def)
qed

lemma spec_load_spec_save:
  assumes "list_all (\<lambda>q. as_loaded q \<and> fst q \<noteq> []) quotes"
  shows "spec_load (spec_save quotes) = map reloaded quotes"
proof -
  from assms have a: "list_all as_loaded quotes" by (simp add: list_all_iff)
  have r: "\<not> blank (spec_line_of_quote q @ [LF]) \<and>
           spec_quote_of_line (spec_line_of_quote q @ [LF]) = reloaded q"
    if "q \<in> set quotes" for q
    using assms that reload_line [of q]
    by (simp add: list_all_iff blank_LF spec_quote_of_line_LF)
  have "filter (\<lambda>line. \<not> blank line) (map (\<lambda>q. spec_line_of_quote q @ [LF]) quotes)
          = map (\<lambda>q. spec_line_of_quote q @ [LF]) quotes"
    using r by (simp add: filter_id_conv)
  then show ?thesis
    using r by (simp add: spec_load_file_lines file_lines_spec_save [OF a])
qed

lemma as_loaded_writable: "list_all as_loaded quotes \<Longrightarrow> list_all writable quotes"
  by (simp add: list_all_iff as_loaded_def)

lemma load_after_save:
  assumes "list_all (\<lambda>q. as_loaded q \<and> fst q \<noteq> []) quotes"
  shows "save_quotes quotes w
           = Inr (w\<lparr>quotes_file := Some (utf8 (spec_save quotes)), writes := Suc (writes w)\<rparr>) \<and>
         load_quotes (w\<lparr>quotes_file := Some (utf8 (spec_save quotes)), writes := Suc (writes w)\<rparr>)
           = Inr (map reloaded quotes,
                  w\<lparr>quotes_file := Some (utf8 (spec_save quotes)), writes := Suc (writes w)\<rparr>)"
proof -
  from assms have a: "list_all as_loaded quotes" by (simp add: list_all_iff)
  then have wr: "list_all writable quotes" by (rule as_loaded_writable)
  have d: "utf8_decode (utf8 (spec_save quotes)) = Some (spec_save quotes)"
    using spec_save_encodable [OF wr] by (rule utf8_decode_utf8)
  show ?thesis
    using load_quotes_existing [OF _ d] spec_load_spec_save [OF assms]
    by (simp add: save_quotes_writable [OF wr])
qed

subsection \<open>The default file\<close>

lemma file_lines_terminated:
  assumes "list_all newline_free ls"
  shows "file_lines (concat (map (\<lambda>l. l @ [LF]) ls)) = map (\<lambda>l. l @ [LF]) ls"
proof -
  have "CR \<notin> set (concat (map (\<lambda>l. l @ [LF]) ls))"
    using assms by (auto simp: list_all_iff newline_free_def)
  then have u: "universal_newlines (concat (map (\<lambda>l. l @ [LF]) ls))
                  = concat (map (\<lambda>l. l @ [LF]) ls)"
    by (rule universal_newlines_no_CR)
  have "list_all (\<lambda>l. LF \<notin> set l) ls"
    using assms by (simp add: list_all_iff newline_free_def)
  then show ?thesis
    unfolding file_lines_def u by (rule lines_from_concat)
qed

lemma spec_load_terminated:
  assumes "list_all newline_free ls"
  shows "spec_load (concat (map (\<lambda>l. l @ [LF]) ls))
           = map spec_quote_of_line (filter (\<lambda>l. \<not> blank l) ls)"
  by (simp add: spec_load_file_lines file_lines_terminated [OF assms] filter_map comp_def
        blank_LF spec_quote_of_line_LF)

lemma strip_DEFAULT_QUOTES: "map strip DEFAULT_QUOTES = DEFAULT_QUOTES"
  by (simp add: DEFAULT_QUOTES_def str_def strip_def lstrip_def rstrip_def isspace_def)

lemma utf8_concat: "utf8 (concat ss) = concat (map utf8 ss)"
  by (induction ss) (simp_all add: utf8_append)

lemma DEFAULT_QUOTES_encodable: "list_all (list_all encodable) DEFAULT_QUOTES"
  by (simp add: DEFAULT_QUOTES_def str_def encodable_def)

lemma default_file_lines: "default_file = utf8 (concat (map (\<lambda>l. l @ [LF]) DEFAULT_QUOTES))"
proof -
  have "default_file = concat (map (\<lambda>l. utf8 (l @ [LF])) (map strip DEFAULT_QUOTES))"
    by (simp add: default_file_def fold_append_concat comp_def)
  then show ?thesis by (simp add: strip_DEFAULT_QUOTES utf8_concat comp_def)
qed

lemma default_file_decodes:
  "utf8_decode default_file = Some (concat (map (\<lambda>l. l @ [LF]) DEFAULT_QUOTES))"
proof -
  have "list_all encodable (concat (map (\<lambda>l. l @ [LF]) DEFAULT_QUOTES))"
    using DEFAULT_QUOTES_encodable by (auto simp: list_all_iff)
  then show ?thesis unfolding default_file_lines by (rule utf8_decode_utf8)
qed

lemma DEFAULT_QUOTES_pairs:
  "DEFAULT_QUOTES = map (\<lambda>q. fst q @ str ''|'' @ snd q) default_pairs"
  by (simp add: DEFAULT_QUOTES_def default_pairs_def str_def)

lemma newline_free_DEFAULT_QUOTES: "list_all newline_free DEFAULT_QUOTES"
  by (simp add: DEFAULT_QUOTES_def str_def newline_free_def LF_def CR_def)

lemma not_blank_DEFAULT_QUOTES: "filter (\<lambda>l. \<not> blank l) DEFAULT_QUOTES = DEFAULT_QUOTES"
  by (simp add: DEFAULT_QUOTES_def str_def blank_def isspace_def)

lemma parse_DEFAULT_QUOTES: "map spec_quote_of_line DEFAULT_QUOTES = default_pairs"
  by (simp add: DEFAULT_QUOTES_def default_pairs_def str_def spec_quote_of_line_def BAR_def
        trim_strip strip_def lstrip_def rstrip_def isspace_def)

lemma spec_load_default_text:
  "spec_load (concat (map (\<lambda>l. l @ [LF]) DEFAULT_QUOTES)) = default_pairs"
  by (simp add: spec_load_terminated [OF newline_free_DEFAULT_QUOTES]
        not_blank_DEFAULT_QUOTES parse_DEFAULT_QUOTES)

lemma load_quotes_absent:
  assumes "quotes_file w = None"
  shows "load_quotes w =
       Inr (default_pairs, w\<lparr>quotes_file := Some default_file, writes := Suc (writes w)\<rparr>)"
proof -
  have e: "ensure_quotes_file w = w\<lparr>quotes_file := Some default_file, writes := Suc (writes w)\<rparr>"
    using assms by (rule ensure_quotes_file_absent)
  have l: "load_loop (file_lines (concat (map (\<lambda>l. l @ [LF]) DEFAULT_QUOTES))) []
             = Inr default_pairs"
    using spec_load_default_text by (simp add: load_loop_eq spec_load_file_lines)
  show ?thesis
    by (simp add: load_quotes_def e default_file_decodes l)
qed

section \<open>The properties of the specification\<close>

lemma print_fields [simp]:
  "quotes_file (print s w) = quotes_file w" "writes (print s w) = writes w"
  "stdout (print s w) = stdout w @ [s]" "entropy (print s w) = entropy w"
  by (simp_all add: print_def)

lemma storable_as_loaded:
  "storable quotes \<Longrightarrow> list_all (\<lambda>q. as_loaded q \<and> fst q \<noteq> []) quotes"
  by (simp add: storable_def list_all_iff)

lemma storable_reloaded: "storable quotes \<Longrightarrow> map reloaded quotes = quotes"
proof -
  assume s: "storable quotes"
  have "reloaded q = q" if "q \<in> set quotes" for q
  proof -
    from s that have "snd q \<noteq> []" "snd q = str ''Unknown'' \<or> lower (snd q) \<noteq> str ''unknown''"
      by (simp_all add: storable_def list_all_iff)
    then show ?thesis
      by (cases q) (auto simp: reloaded_def)
  qed
  then show ?thesis by (simp add: map_idI)
qed

lemma storable_example:
  "storable [(str ''Test quote.'', str ''Ada Lovelace''),
             (str ''Just text, no pipe.'', str ''Unknown'')]"
  by (simp add: storable_def as_loaded_def writable_def encodable_def newline_free_def str_def
        strip_def lstrip_def rstrip_def isspace_def lower_def lower_char_def LF_def CR_def
        BAR_def)

lemma well_formed_example:
  "well_formed [(str ''Hi'', str ''unknown''), (str ''a|b'', str ''c'')]"
  by (simp add: well_formed_def newline_free_def str_def strip_def lstrip_def
        rstrip_def isspace_def LF_def CR_def)

lemma save_example:
  "save_quotes [(str ''Hi'', str ''unknown''), (str ''a|b'', str ''c'')] fresh
     = Inr (fresh\<lparr>quotes_file := Some (str ''Hi'' @ [LF] @ str ''a|b|c'' @ [LF]),
                  writes := 1\<rparr>)"
  by (simp add: save_quotes_def write_text_def save_line_def lower_def lower_char_def
        utf8_def utf8_char_def encodable_def fresh_def str_def BAR_def LF_def)

lemma reload_example:
  "load_quotes (fresh\<lparr>quotes_file := Some (str ''Hi'' @ [LF] @ str ''a|b|c'' @ [LF]),
                      writes := 1\<rparr>)
     = Inr ([(str ''Hi'', str ''Unknown''), (str ''a'', str ''b|c'')],
            fresh\<lparr>quotes_file := Some (str ''Hi'' @ [LF] @ str ''a|b|c'' @ [LF]),
                  writes := 1\<rparr>)"
  by (simp add: load_quotes_def ensure_quotes_file_def fresh_def utf8_decode_ascii
        file_lines_def text_author_def unpack2_def str_def strip_def lstrip_def rstrip_def
        isspace_def LF_def CR_def BAR_def)

subsection \<open>C1: saving and loading round-trip\<close>

text \<open>
  Claim C1 says that every well-formed quote list, saved and loaded, comes back field
  for field. It fails for an author that is \<open>unknown\<close> in another case than
  \<open>Unknown\<close>, which is saved as a bare text and comes back as \<open>Unknown\<close>, and for a
  text with a \<open>|\<close> in it, which is split at that \<open>|\<close> when it is loaded. The list
  [(Hi, unknown), (a|b, c)] is well-formed, is saved as the lines \<open>Hi\<close> and \<open>a|b|c\<close>,
  and comes back as [(Hi, Unknown), (a, b|c)].
\<close>

theorem save_load_round_trip_counterexample:
  "well_formed [(str ''Hi'', str ''unknown''), (str ''a|b'', str ''c'')] \<and>
   save_quotes [(str ''Hi'', str ''unknown''), (str ''a|b'', str ''c'')] fresh
     = Inr (fresh\<lparr>quotes_file := Some (str ''Hi'' @ [LF] @ str ''a|b|c'' @ [LF]),
                  writes := 1\<rparr>) \<and>
   fst (projr (load_quotes (projr
     (save_quotes [(str ''Hi'', str ''unknown''), (str ''a|b'', str ''c'')] fresh))))
     = [(str ''Hi'', str ''Unknown''), (str ''a'', str ''b|c'')] \<and>
   fst (projr (load_quotes (projr
     (save_quotes [(str ''Hi'', str ''unknown''), (str ''a|b'', str ''c'')] fresh))))
     \<noteq> [(str ''Hi'', str ''unknown''), (str ''a|b'', str ''c'')]"
proof -
  have l: "fst (projr (load_quotes (projr
     (save_quotes [(str ''Hi'', str ''unknown''), (str ''a|b'', str ''c'')] fresh))))
     = [(str ''Hi'', str ''Unknown''), (str ''a'', str ''b|c'')]"
    by (simp only: save_example reload_example sum.sel fst_conv)
  have n: "[(str ''Hi'', str ''Unknown''), (str ''a'', str ''b|c'')]
             \<noteq> [(str ''Hi'', str ''unknown''), (str ''a|b'', str ''c'')]"
    by (simp add: str_def)
  show ?thesis
    using well_formed_example save_example n unfolding l by (intro conjI) simp_all
qed

text \<open>
  C1, amended: a quote list whose texts and authors are non-empty, trimmed, free of line
  feeds and carriage returns and free of surrogate code points, whose texts have no
  \<open>|\<close>, and whose authors are either \<open>Unknown\<close> as written or not \<open>unknown\<close> in any
  case, is saved without an exception and loaded after the save exactly as it was, and
  saving the loaded list again writes the same file.
\<close>

theorem save_load_round_trip:
  assumes "storable quotes"
  shows "\<exists>w1. save_quotes quotes w = Inr w1 \<and> load_quotes w1 = Inr (quotes, w1) \<and>
           (\<exists>w2. save_quotes quotes w1 = Inr w2 \<and> quotes_file w2 = quotes_file w1)"
proof -
  define w1 where
    "w1 = w\<lparr>quotes_file := Some (utf8 (spec_save quotes)), writes := Suc (writes w)\<rparr>"
  have a: "list_all (\<lambda>q. as_loaded q \<and> fst q \<noteq> []) quotes"
    using assms by (rule storable_as_loaded)
  then have wr: "list_all writable quotes" by (simp add: list_all_iff as_loaded_def)
  have s: "save_quotes quotes w = Inr w1" and l: "load_quotes w1 = Inr (quotes, w1)"
    using load_after_save [OF a, of w] storable_reloaded [OF assms]
    by (simp_all add: w1_def)
  have "save_quotes quotes w1
          = Inr (w1\<lparr>quotes_file := Some (utf8 (spec_save quotes)), writes := Suc (writes w1)\<rparr>)"
    using wr by (rule save_quotes_writable)
  then show ?thesis using s l by (simp add: w1_def)
qed

theorem save_load_round_trip_witness:
  "storable [(str ''Test quote.'', str ''Ada Lovelace''),
             (str ''Just text, no pipe.'', str ''Unknown'')] \<and>
   (\<exists>w1. save_quotes [(str ''Test quote.'', str ''Ada Lovelace''),
                       (str ''Just text, no pipe.'', str ''Unknown'')] fresh = Inr w1 \<and>
      load_quotes w1 = Inr ([(str ''Test quote.'', str ''Ada Lovelace''),
                             (str ''Just text, no pipe.'', str ''Unknown'')], w1))"
  using save_load_round_trip [OF storable_example, of fresh] storable_example by blast

lemma spec_lines_from_line:
  "LF \<notin> set l \<Longrightarrow> CR \<notin> set l \<Longrightarrow>
     spec_lines_from cur (l @ LF # rest) = (cur @ l) # spec_lines_from [] rest"
proof (induction l arbitrary: cur)
  case Nil
  show ?case by (cases rest) simp_all
next
  case (Cons x xs)
  obtain d cs where t: "xs @ LF # rest = d # cs" by (cases xs) auto
  have "spec_lines_from cur (x # d # cs) = spec_lines_from (cur @ [x]) (d # cs)"
    using Cons.prems by simp
  also have "\<dots> = ((cur @ [x]) @ xs) # spec_lines_from [] rest"
    unfolding t [symmetric] using Cons.prems by (intro Cons.IH) simp_all
  finally show ?case by (simp add: t)
qed

lemma spec_lines_terminated:
  "list_all newline_free ls \<Longrightarrow> spec_lines (concat (map (\<lambda>l. l @ [LF]) ls)) = ls"
proof -
  assume a: "list_all newline_free ls"
  have "spec_lines_from [] (concat (map (\<lambda>l. l @ [LF]) ls)) = ls"
    using a by (induction ls) (simp_all add: newline_free_def spec_lines_from_line)
  then show ?thesis by (simp add: spec_lines_def)
qed

lemma spec_line_of_quote_newline_free:
  "newline_free (fst q) \<Longrightarrow> newline_free (snd q) \<Longrightarrow> newline_free (spec_line_of_quote q)"
  by (auto simp: spec_line_of_quote_def newline_free_def str_bar)

lemma one_line_each_writable: "one_line_each quotes \<Longrightarrow> list_all writable quotes"
  by (simp add: one_line_each_def list_all_iff)

lemma one_line_each_lines:
  "one_line_each quotes \<Longrightarrow> spec_lines (spec_save quotes) = map spec_line_of_quote quotes"
proof -
  assume a: "one_line_each quotes"
  then have "list_all newline_free (map spec_line_of_quote quotes)"
    by (simp add: one_line_each_def list_all_iff spec_line_of_quote_newline_free)
  from spec_lines_terminated [OF this] show ?thesis
    by (simp add: spec_save_def comp_def)
qed

subsection \<open>C8: what save writes\<close>

text \<open>
  Claim C8 is about every quote list. A field with a surrogate code point, which a
  command-line argument can hold, does not encode: the write of its line raises
  \<^verbatim>\<open>UnicodeEncodeError\<close> and the file is left with the lines before it. A field with
  a line feed makes two lines of one quote. Here the first quote has taken two lines,
  the second has raised and the third is not written.
\<close>

theorem save_quotes_counterexample:
  "save_quotes [(str ''a'' @ [LF] @ str ''b'', str ''c''), ([55296], str ''d''),
                (str ''e'', str ''f'')] fresh
     = Inl (UnicodeEncodeError,
            fresh\<lparr>quotes_file := Some (str ''a'' @ [LF] @ str ''b|c'' @ [LF]), writes := 1\<rparr>) \<and>
   utf8_decode (str ''a'' @ [LF] @ str ''b|c'' @ [LF])
     = Some (str ''a'' @ [LF] @ str ''b|c'' @ [LF]) \<and>
   spec_lines (str ''a'' @ [LF] @ str ''b|c'' @ [LF]) = [str ''a'', str ''b|c'']"
proof -
  have "save_quotes [(str ''a'' @ [LF] @ str ''b'', str ''c''), ([55296], str ''d''),
                (str ''e'', str ''f'')] fresh
     = Inl (UnicodeEncodeError,
            fresh\<lparr>quotes_file := Some (str ''a'' @ [LF] @ str ''b|c'' @ [LF]), writes := 1\<rparr>)"
    by (simp add: save_quotes_def write_text_def save_line_def lower_def lower_char_def
          utf8_def utf8_char_def encodable_def fresh_def str_def BAR_def LF_def)
  moreover have "utf8_decode (str ''a'' @ [LF] @ str ''b|c'' @ [LF])
     = Some (str ''a'' @ [LF] @ str ''b|c'' @ [LF])"
    by (rule utf8_decode_ascii) (simp add: str_def LF_def)
  moreover have "spec_lines (str ''a'' @ [LF] @ str ''b|c'' @ [LF]) = [str ''a'', str ''b|c'']"
    by (simp add: spec_lines_def str_def LF_def CR_def)
  ultimately show ?thesis by (intro conjI)
qed

text \<open>
  C8, amended: for every quote list whose fields have no surrogate code point and no
  line feed or carriage return, \<open>save_quotes\<close> raises nothing and replaces the content of
  the file by the UTF-8 of one line per quote, in order: \<open>text|author\<close> when the author
  is not empty and not \<open>Unknown\<close> in any case, and the bare text otherwise. A quote whose
  author is \<open>Unknown\<close> is written as its text alone, with no \<open>|\<close> after it. The
  example has such a quote, an author that is \<open>uNKNOWN\<close>, an empty author and letters
  outside of ASCII.
\<close>

theorem save_quotes_follows_spec:
  assumes "one_line_each quotes"
  shows "save_quotes quotes w
           = Inr (w\<lparr>quotes_file := Some (utf8 (spec_save quotes)), writes := Suc (writes w)\<rparr>) \<and>
         utf8_decode (utf8 (spec_save quotes)) = Some (spec_save quotes) \<and>
         spec_lines (spec_save quotes) = map spec_line_of_quote quotes \<and>
         length (spec_lines (spec_save quotes)) = length quotes \<and>
         save_quotes [(str ''Just text, no pipe.'', str ''Unknown''), (str ''a'', str ''Ada''),
                      (str ''b'', str ''uNKNOWN''), (str ''c'', []), ([233], [8217])] fresh
           = Inr (fresh\<lparr>quotes_file :=
                          Some (str ''Just text, no pipe.'' @ [LF] @ str ''a|Ada'' @ [LF]
                                @ str ''b'' @ [LF] @ str ''c'' @ [LF]
                                @ [195, 169, 124, 226, 128, 153, LF]),
                        writes := 1\<rparr>)"
proof -
  have wr: "list_all writable quotes" using assms by (rule one_line_each_writable)
  have l: "spec_lines (spec_save quotes) = map spec_line_of_quote quotes"
    using assms by (rule one_line_each_lines)
  have g: "save_quotes quotes w
           = Inr (w\<lparr>quotes_file := Some (utf8 (spec_save quotes)), writes := Suc (writes w)\<rparr>) \<and>
         utf8_decode (utf8 (spec_save quotes)) = Some (spec_save quotes) \<and>
         spec_lines (spec_save quotes) = map spec_line_of_quote quotes \<and>
         length (spec_lines (spec_save quotes)) = length quotes"
    using save_quotes_writable [OF wr, of w] utf8_decode_utf8 [OF spec_save_encodable [OF wr]] l
    by simp
  have e: "save_quotes [(str ''Just text, no pipe.'', str ''Unknown''), (str ''a'', str ''Ada''),
                      (str ''b'', str ''uNKNOWN''), (str ''c'', []), ([233], [8217])] fresh
           = Inr (fresh\<lparr>quotes_file :=
                          Some (str ''Just text, no pipe.'' @ [LF] @ str ''a|Ada'' @ [LF]
                                @ str ''b'' @ [LF] @ str ''c'' @ [LF]
                                @ [195, 169, 124, 226, 128, 153, LF]),
                        writes := 1\<rparr>)"
    by (simp add: save_quotes_def write_text_def save_line_def lower_def lower_char_def
          utf8_def utf8_char_def encodable_def fresh_def str_def BAR_def LF_def)
  from g e show ?thesis by simp
qed

lemma one_line_each_example:
  "one_line_each [(str ''Just text, no pipe.'', str ''Unknown''), (str ''a'', str ''Ada''),
                  (str ''b'', str ''uNKNOWN''), (str ''c'', []), ([233], [8217])]"
  by (simp add: one_line_each_def writable_def encodable_def newline_free_def str_def
        LF_def CR_def)

lemma spec_save_example:
  "utf8 (spec_save [(str ''Just text, no pipe.'', str ''Unknown''), (str ''a'', str ''Ada''),
                    (str ''b'', str ''uNKNOWN''), (str ''c'', []), ([233], [8217])])
     = str ''Just text, no pipe.'' @ [LF] @ str ''a|Ada'' @ [LF] @ str ''b'' @ [LF]
       @ str ''c'' @ [LF] @ [195, 169, 124, 226, 128, 153, LF]"
  by (simp add: spec_save_def spec_line_of_quote_def equal_ignoring_case_def lower_def
        lower_char_def utf8_def utf8_char_def str_def LF_def)

theorem save_quotes_follows_spec_witness:
  "one_line_each [(str ''Just text, no pipe.'', str ''Unknown''), (str ''a'', str ''Ada''),
                  (str ''b'', str ''uNKNOWN''), (str ''c'', []), ([233], [8217])] \<and>
   save_quotes [(str ''Just text, no pipe.'', str ''Unknown''), (str ''a'', str ''Ada''),
                (str ''b'', str ''uNKNOWN''), (str ''c'', []), ([233], [8217])] fresh
     = Inr (fresh\<lparr>quotes_file :=
                    Some (str ''Just text, no pipe.'' @ [LF] @ str ''a|Ada'' @ [LF]
                          @ str ''b'' @ [LF] @ str ''c'' @ [LF]
                          @ [195, 169, 124, 226, 128, 153, LF]),
                  writes := Suc (writes fresh)\<rparr>)"
  using save_quotes_follows_spec [OF one_line_each_example, of fresh] one_line_each_example
  by (simp only: spec_save_example)

subsection \<open>C7: what load returns\<close>

text \<open>
  Claim C7 is about every content of the file. The file is read as UTF-8 with strict
  error handling, so when its bytes are not UTF-8 the load raises
  \<^verbatim>\<open>UnicodeDecodeError\<close>. Here the second line of the file is the single byte 0xFF.
\<close>

theorem load_quotes_counterexample:
  "load_quotes (fresh\<lparr>quotes_file := Some (str ''A|B'' @ [LF, 255, LF])\<rparr>)
     = Inl (UnicodeDecodeError, fresh\<lparr>quotes_file := Some (str ''A|B'' @ [LF, 255, LF])\<rparr>)"
proof -
  have "utf8_decode (str ''A|B'' @ [LF, 255, LF]) = None"
    by (simp add: utf8_decode.simps decode_first_def str_def LF_def)
  then show ?thesis
    by (intro load_quotes_undecodable) simp_all
qed

text \<open>
  C7, amended: whenever the bytes of the file are UTF-8, \<open>load_quotes\<close> does not fail
  and leaves the file as it is; it returns, in the order of the file, one quote for every
  line of the decoded text that is not blank: the line split at its first \<open>|\<close> with both
  parts trimmed when it has one, and the trimmed line with the author \<open>Unknown\<close> when it
  has none. The example has a carriage return and line feed, blank lines, a second
  \<open>|\<close>, a bare carriage return, a no-break space and a tab as whitespace, letters
  outside of ASCII, and a last line without a newline and with nothing after its \<open>|\<close>.
\<close>

theorem load_quotes_follows_spec:
  assumes "utf8_decode bytes = Some content"
  shows "load_quotes (w\<lparr>quotes_file := Some bytes\<rparr>)
           = Inr (spec_load content, w\<lparr>quotes_file := Some bytes\<rparr>) \<and>
         load_quotes (fresh\<lparr>quotes_file := Some (str '' a | b|c '' @ [CR, LF, LF] @ str ''   ''
             @ [LF] @ str ''plain'' @ [CR] @ [194, 160] @ str ''caf'' @ [195, 169, 9]
             @ str ''|'' @ [226, 128, 153] @ [LF] @ str ''last | '')\<rparr>)
           = Inr ([(str ''a'', str ''b|c''), (str ''plain'', str ''Unknown''),
                   (str ''caf'' @ [233], [8217]), (str ''last'', [])],
                  fresh\<lparr>quotes_file := Some (str '' a | b|c '' @ [CR, LF, LF] @ str ''   ''
             @ [LF] @ str ''plain'' @ [CR] @ [194, 160] @ str ''caf'' @ [195, 169, 9]
             @ str ''|'' @ [226, 128, 153] @ [LF] @ str ''last | '')\<rparr>)"
proof -
  have g: "load_quotes (w\<lparr>quotes_file := Some bytes\<rparr>)
           = Inr (spec_load content, w\<lparr>quotes_file := Some bytes\<rparr>)"
    using assms by (intro load_quotes_existing) simp_all
  have e: "load_quotes (fresh\<lparr>quotes_file := Some (str '' a | b|c '' @ [CR, LF, LF] @ str ''   ''
             @ [LF] @ str ''plain'' @ [CR] @ [194, 160] @ str ''caf'' @ [195, 169, 9]
             @ str ''|'' @ [226, 128, 153] @ [LF] @ str ''last | '')\<rparr>)
           = Inr ([(str ''a'', str ''b|c''), (str ''plain'', str ''Unknown''),
                   (str ''caf'' @ [233], [8217]), (str ''last'', [])],
                  fresh\<lparr>quotes_file := Some (str '' a | b|c '' @ [CR, LF, LF] @ str ''   ''
             @ [LF] @ str ''plain'' @ [CR] @ [194, 160] @ str ''caf'' @ [195, 169, 9]
             @ str ''|'' @ [226, 128, 153] @ [LF] @ str ''last | '')\<rparr>)"
    by (simp add: load_quotes_def ensure_quotes_file_def fresh_def utf8_decode.simps
          decode_first_def continuation_def file_lines_def text_author_def unpack2_def
          str_def strip_def lstrip_def rstrip_def isspace_def LF_def CR_def BAR_def)
  from g e show ?thesis by (rule conjI)
qed

lemma decode_example:
  "utf8_decode (str ''x | y'' @ [LF] @ [226, 128, 153] @ [LF]) =
     Some (str ''x | y'' @ [LF] @ [8217] @ [LF])"
  by (simp add: utf8_decode.simps decode_first_def continuation_def str_def LF_def)

lemma spec_load_example:
  "spec_load (str ''x | y'' @ [LF] @ [8217] @ [LF])
     = [(str ''x'', str ''y''), ([8217], str ''Unknown'')]"
  by (simp add: spec_load_def spec_lines_def spec_quote_of_line_def blank_def trim_def
        isspace_def str_def LF_def CR_def BAR_def)

theorem load_quotes_follows_spec_witness:
  "utf8_decode (str ''x | y'' @ [LF] @ [226, 128, 153] @ [LF]) =
     Some (str ''x | y'' @ [LF] @ [8217] @ [LF]) \<and>
   load_quotes (fresh\<lparr>quotes_file := Some (str ''x | y'' @ [LF] @ [226, 128, 153] @ [LF])\<rparr>)
     = Inr ([(str ''x'', str ''y''), ([8217], str ''Unknown'')],
            fresh\<lparr>quotes_file := Some (str ''x | y'' @ [LF] @ [226, 128, 153] @ [LF])\<rparr>)"
  using load_quotes_follows_spec [OF decode_example, of fresh] decode_example
  by (simp only: spec_load_example)

subsection \<open>C9: ensuring the file twice\<close>

text \<open>
  C9: when the file exists \<open>ensure_quotes_file\<close> changes nothing, so that calling it
  twice leaves the content that calling it once leaves; the same holds of any world.
\<close>

theorem ensure_quotes_file_idempotent:
  "ensure_quotes_file (w\<lparr>quotes_file := Some content\<rparr>) = w\<lparr>quotes_file := Some content\<rparr> \<and>
   ensure_quotes_file (ensure_quotes_file (w\<lparr>quotes_file := Some content\<rparr>))
     = ensure_quotes_file (w\<lparr>quotes_file := Some content\<rparr>) \<and>
   ensure_quotes_file (ensure_quotes_file w) = ensure_quotes_file w"
  by (simp add: ensure_quotes_file_def split: option.splits)

subsection \<open>C10: a loaded quote with an empty text\<close>

text \<open>
  C10: the line \<open> |Bob\<close>, with only whitespace before its \<open>|\<close>, is loaded as a quote
  whose text is the empty string, so that a loaded list need not be well-formed.
\<close>

theorem load_quotes_empty_text:
  "load_quotes (fresh\<lparr>quotes_file := Some (str '' |Bob'' @ [LF])\<rparr>)
     = Inr ([([], str ''Bob'')], fresh\<lparr>quotes_file := Some (str '' |Bob'' @ [LF])\<rparr>) \<and>
   strip (fst ([], str ''Bob'')) = [] \<and>
   \<not> well_formed [([], str ''Bob'')]"
  by (simp add: load_quotes_def ensure_quotes_file_def fresh_def utf8_decode.simps
        decode_first_def file_lines_def text_author_def unpack2_def str_def strip_def
        lstrip_def rstrip_def isspace_def LF_def CR_def BAR_def
        well_formed_def)

lemma default_file_pairs:
  "utf8_decode default_file
     = Some (concat (map (\<lambda>q. fst q @ str ''|'' @ snd q @ [LF]) default_pairs))"
  by (simp add: default_file_decodes DEFAULT_QUOTES_pairs comp_def)

lemma default_file_bytes:
  "default_file = utf8 (concat (map (\<lambda>q. fst q @ str ''|'' @ snd q @ [LF]) default_pairs))"
  by (simp add: default_file_lines DEFAULT_QUOTES_pairs comp_def)

subsection \<open>C2: the first load\<close>

text \<open>
  Claim C2 ends with: no default quote has the author \<open>Unknown\<close>. The ninth default
  line is \<open>Small steps every day.|Unknown\<close>, and the ninth quote that the first load
  returns has the author \<open>Unknown\<close>.
\<close>

theorem first_load_counterexample:
  "snd (fst (projr (load_quotes fresh)) ! 8) = str ''Unknown''"
  by (simp add: load_quotes_absent fresh_def default_pairs_def)

text \<open>
  C2, amended: in a world without the file, \<open>load_quotes\<close> returns the ten default
  quotes in their order, and afterwards the file exists and holds the same ten entries,
  one per line as \<open>text|author\<close>. One default quote, the ninth, has the author
  \<open>Unknown\<close>.
\<close>

theorem first_load_gives_defaults:
  "load_quotes (w\<lparr>quotes_file := None\<rparr>)
     = Inr (default_pairs,
            w\<lparr>quotes_file := Some default_file, writes := Suc (writes w)\<rparr>) \<and>
   length default_pairs = 10 \<and>
   default_file = utf8 (concat (map (\<lambda>q. fst q @ str ''|'' @ snd q @ [LF]) default_pairs)) \<and>
   utf8_decode default_file
     = Some (concat (map (\<lambda>q. fst q @ str ''|'' @ snd q @ [LF]) default_pairs)) \<and>
   filter (\<lambda>q. snd q = str ''Unknown'') default_pairs
     = [(str ''Small steps every day.'', str ''Unknown'')]"
proof -
  have a: "load_quotes (w\<lparr>quotes_file := None\<rparr>)
     = Inr (default_pairs,
            w\<lparr>quotes_file := Some default_file, writes := Suc (writes w)\<rparr>)"
    by (simp add: load_quotes_absent)
  have b: "length default_pairs = 10" by (simp add: default_pairs_def)
  have c: "filter (\<lambda>q. snd q = str ''Unknown'') default_pairs
     = [(str ''Small steps every day.'', str ''Unknown'')]"
    by (simp add: default_pairs_def str_def)
  from a b c default_file_pairs default_file_bytes show ?thesis by (intro conjI)
qed

lemma remove_quote_rejects:
  "load_quotes w = Inr (quotes, w1) \<Longrightarrow> index < 1 \<or> int (length quotes) < index \<Longrightarrow>
     remove_quote index w =
       Inr (print (str ''Index out of range. Must be 1..'' @ str_of_nat (length quotes)) w1)"
  by (auto simp: remove_quote_def)

lemma one_quote_file:
  "load_quotes (fresh\<lparr>quotes_file := Some (str ''A|B'' @ [LF])\<rparr>)
     = Inr ([(str ''A'', str ''B'')], fresh\<lparr>quotes_file := Some (str ''A|B'' @ [LF])\<rparr>)"
  by (simp add: load_quotes_def ensure_quotes_file_def fresh_def utf8_decode.simps
        decode_first_def file_lines_def text_author_def unpack2_def str_def strip_def
        lstrip_def rstrip_def isspace_def LF_def CR_def BAR_def)

lemma str_of_nat_1: "str_of_nat (Suc 0) = str ''1''"
  by (simp add: str_of_nat.simps str_def)

lemma str_of_nat_10: "str_of_nat 10 = str ''10''"
  by (simp add: str_of_nat.simps str_def)

lemma str_append: "str (a @ b) = str a @ str b"
  by (simp add: str_def)

subsection \<open>C5: removing at an index out of range\<close>

text \<open>
  Claim C5 says that an index out of range leaves the file as it was, with no write.
  \<open>remove_quote\<close> loads the list first; in a world without the file the load creates
  it with the default quotes, and only then is the index 0 refused.
\<close>

theorem remove_quote_out_of_range_counterexample:
  "quotes_file fresh = None \<and>
   quotes_file (projr (remove_quote 0 fresh)) = Some default_file \<and>
   writes (projr (remove_quote 0 fresh)) = Suc (writes fresh) \<and>
   stdout (projr (remove_quote 0 fresh)) = [str ''Index out of range. Must be 1..10'']"
proof -
  have n: "quotes_file fresh = None" by (simp add: fresh_def)
  have l: "length default_pairs = 10" by (simp add: default_pairs_def)
  have "remove_quote 0 fresh =
          Inr (print (str ''Index out of range. Must be 1..'' @ str_of_nat (length default_pairs))
                 (fresh\<lparr>quotes_file := Some default_file, writes := Suc (writes fresh)\<rparr>))"
    by (rule remove_quote_rejects [OF load_quotes_absent [OF n]]) simp
  then show ?thesis
    using n by (simp add: l str_of_nat_10 str_append [symmetric]) (simp add: fresh_def)
qed

text \<open>
  C5, amended: for every index outside of 1..length of the loaded list, \<open>remove_quote\<close>
  prints \<open>Index out of range. Must be 1..\<close> followed by that length and never saves.
  A file that exists is left as it is, with no write; a file that does not exist has been
  created by the load with the default quotes, which is the only write.
\<close>

theorem remove_quote_out_of_range:
  assumes "load_quotes w = Inr (quotes, w1)" and "index < 1 \<or> int (length quotes) < index"
  shows "\<exists>w2. remove_quote index w = Inr w2 \<and>
           stdout w2 = stdout w
             @ [str ''Index out of range. Must be 1..'' @ str_of_nat (length quotes)] \<and>
           (case quotes_file w of
              Some content \<Rightarrow> quotes_file w2 = Some content \<and> writes w2 = writes w
            | None \<Rightarrow> quotes_file w2 = Some default_file \<and> writes w2 = Suc (writes w))"
proof -
  have r: "remove_quote index w =
       Inr (print (str ''Index out of range. Must be 1..'' @ str_of_nat (length quotes)) w1)"
    using assms by (rule remove_quote_rejects)
  have w1: "w1 = ensure_quotes_file w" using assms(1) by (rule load_quotes_world)
  show ?thesis
    unfolding r w1
    by (cases "quotes_file w")
       (simp_all add: ensure_quotes_file_absent ensure_quotes_file_present)
qed

theorem remove_quote_out_of_range_witness:
  "load_quotes (fresh\<lparr>quotes_file := Some (str ''A|B'' @ [LF])\<rparr>)
     = Inr ([(str ''A'', str ''B'')], fresh\<lparr>quotes_file := Some (str ''A|B'' @ [LF])\<rparr>) \<and>
   (\<exists>w2. remove_quote 0 (fresh\<lparr>quotes_file := Some (str ''A|B'' @ [LF])\<rparr>) = Inr w2 \<and>
      stdout w2 = [str ''Index out of range. Must be 1..1''] \<and>
      quotes_file w2 = Some (str ''A|B'' @ [LF]) \<and> writes w2 = 0) \<and>
   (\<exists>w2. remove_quote 2 (fresh\<lparr>quotes_file := Some (str ''A|B'' @ [LF])\<rparr>) = Inr w2 \<and>
      stdout w2 = [str ''Index out of range. Must be 1..1''] \<and>
      quotes_file w2 = Some (str ''A|B'' @ [LF]) \<and> writes w2 = 0)"
  using remove_quote_out_of_range [OF one_quote_file, of 0]
        remove_quote_out_of_range [OF one_quote_file, of 2] one_quote_file
  by (simp add: str_of_nat_1 str_append [symmetric]) (simp add: fresh_def)

lemma pop_valid:
  "1 \<le> index \<Longrightarrow> index \<le> int (length xs) \<Longrightarrow>
     pop xs (index - 1) =
       Inr (xs ! (nat index - 1), take (nat index - 1) xs @ drop (nat index) xs)"
proof -
  assume a: "1 \<le> index" "index \<le> int (length xs)"
  then have "nat (index - 1) = nat index - 1" "Suc (nat index - 1) = nat index" by simp_all
  with a show ?thesis by (simp add: pop_def Let_def)
qed

lemma remove_quote_accepts:
  assumes "load_quotes w = Inr (quotes, w1)" "1 \<le> index" "index \<le> int (length quotes)"
    and "save_quotes (take (nat index - 1) quotes @ drop (nat index) quotes) w1 = Inr w2"
  shows "remove_quote index w =
     Inr (print ([128465, 65039] @ str '' Removed: '' @ [8220] @ fst (quotes ! (nat index - 1))
                 @ [8221] @ str '' '' @ [8212] @ str '' '' @ snd (quotes ! (nat index - 1)))
            w2)"
  using assms by (simp add: remove_quote_def pop_valid)

lemma fst_reloaded [simp]: "fst (reloaded q) = fst q"
  by (simp add: reloaded_def)

lemma strip_Nil [simp]: "strip [] = []"
  by (simp add: strip_def lstrip_def rstrip_def)

lemma well_formed_text: "well_formed quotes \<Longrightarrow> q \<in> set quotes \<Longrightarrow> fst q \<noteq> []"
  by (auto simp: well_formed_def list_all_iff)

lemma duplicate_file:
  "load_quotes (fresh\<lparr>quotes_file := Some (str ''A|B'' @ [LF] @ str ''Hi|unknown'' @ [LF]
                                             @ str ''A|B'' @ [LF])\<rparr>)
     = Inr ([(str ''A'', str ''B''), (str ''Hi'', str ''unknown''), (str ''A'', str ''B'')],
            fresh\<lparr>quotes_file := Some (str ''A|B'' @ [LF] @ str ''Hi|unknown'' @ [LF]
                                             @ str ''A|B'' @ [LF])\<rparr>)"
  by (simp add: load_quotes_def ensure_quotes_file_def fresh_def utf8_decode.simps
        decode_first_def file_lines_def text_author_def unpack2_def str_def strip_def
        lstrip_def rstrip_def isspace_def LF_def CR_def BAR_def)

lemma duplicate_well_formed:
  "well_formed [(str ''A'', str ''B''), (str ''Hi'', str ''unknown''), (str ''A'', str ''B'')]"
  by (simp add: well_formed_def newline_free_def str_def strip_def lstrip_def
        rstrip_def isspace_def LF_def CR_def)

lemma duplicate_saved:
  "save_quotes [(str ''Hi'', str ''unknown''), (str ''A'', str ''B'')]
     (fresh\<lparr>quotes_file := Some (str ''A|B'' @ [LF] @ str ''Hi|unknown'' @ [LF]
                                     @ str ''A|B'' @ [LF])\<rparr>)
     = Inr (fresh\<lparr>quotes_file := Some (str ''Hi'' @ [LF] @ str ''A|B'' @ [LF]), writes := 1\<rparr>)"
  by (simp add: save_quotes_def write_text_def save_line_def lower_def lower_char_def
        utf8_def utf8_char_def encodable_def fresh_def str_def BAR_def LF_def)

lemma duplicate_removed:
  "remove_quote 1 (fresh\<lparr>quotes_file := Some (str ''A|B'' @ [LF] @ str ''Hi|unknown'' @ [LF]
                                                @ str ''A|B'' @ [LF])\<rparr>)
     = Inr (fresh\<lparr>quotes_file := Some (str ''Hi'' @ [LF] @ str ''A|B'' @ [LF]), writes := 1,
                  stdout := [[128465, 65039] @ str '' Removed: '' @ [8220] @ str ''A''
                             @ [8221] @ str '' '' @ [8212] @ str '' B'']\<rparr>)"
proof -
  have s: "save_quotes
      (take (nat 1 - 1) [(str ''A'', str ''B''), (str ''Hi'', str ''unknown''),
                         (str ''A'', str ''B'')]
       @ drop (nat 1) [(str ''A'', str ''B''), (str ''Hi'', str ''unknown''),
                       (str ''A'', str ''B'')])
      (fresh\<lparr>quotes_file := Some (str ''A|B'' @ [LF] @ str ''Hi|unknown'' @ [LF]
                                      @ str ''A|B'' @ [LF])\<rparr>)
     = Inr (fresh\<lparr>quotes_file := Some (str ''Hi'' @ [LF] @ str ''A|B'' @ [LF]), writes := 1\<rparr>)"
    using duplicate_saved by simp
  have "remove_quote 1 (fresh\<lparr>quotes_file := Some (str ''A|B'' @ [LF] @ str ''Hi|unknown''
                                                    @ [LF] @ str ''A|B'' @ [LF])\<rparr>)
     = Inr (print ([128465, 65039] @ str '' Removed: '' @ [8220]
             @ fst ([(str ''A'', str ''B''), (str ''Hi'', str ''unknown''),
                     (str ''A'', str ''B'')] ! (nat 1 - 1))
             @ [8221] @ str '' '' @ [8212] @ str '' ''
             @ snd ([(str ''A'', str ''B''), (str ''Hi'', str ''unknown''),
                     (str ''A'', str ''B'')] ! (nat 1 - 1)))
            (fresh\<lparr>quotes_file := Some (str ''Hi'' @ [LF] @ str ''A|B'' @ [LF]),
                   writes := 1\<rparr>))"
    by (rule remove_quote_accepts [OF duplicate_file _ _ s]) simp_all
  then show ?thesis by (simp add: print_def fresh_def str_def)
qed

lemma duplicate_reloaded:
  "load_quotes (fresh\<lparr>quotes_file := Some (str ''Hi'' @ [LF] @ str ''A|B'' @ [LF]), writes := 1,
                  stdout := [[128465, 65039] @ str '' Removed: '' @ [8220] @ str ''A''
                             @ [8221] @ str '' '' @ [8212] @ str '' B'']\<rparr>)
     = Inr ([(str ''Hi'', str ''Unknown''), (str ''A'', str ''B'')],
            fresh\<lparr>quotes_file := Some (str ''Hi'' @ [LF] @ str ''A|B'' @ [LF]), writes := 1,
                  stdout := [[128465, 65039] @ str '' Removed: '' @ [8220] @ str ''A''
                             @ [8221] @ str '' '' @ [8212] @ str '' B'']\<rparr>)"
  by (simp add: load_quotes_def ensure_quotes_file_def fresh_def utf8_decode.simps
        decode_first_def file_lines_def text_author_def unpack2_def str_def strip_def
        lstrip_def rstrip_def isspace_def LF_def CR_def BAR_def)

subsection \<open>C6: removing at a valid index, then loading\<close>

text \<open>
  Claim C6 says that after a removal at a valid index the reloaded list is one shorter,
  that the removed quote is absent from it and that the remaining quotes are kept. The
  file with the lines \<open>A|B\<close>, \<open>Hi|unknown\<close> and \<open>A|B\<close> loads as a well-formed list.
  After the removal of its first entry the reloaded list is [(Hi, Unknown), (A, B)]: the
  removed quote (A, B) is still in it, as the list had it twice, and the remaining quote
  (Hi, unknown) is not, as its author has been saved as a bare text and has come back as
  \<open>Unknown\<close>.
\<close>

theorem remove_quote_then_load_counterexample:
  "load_quotes (fresh\<lparr>quotes_file := Some (str ''A|B'' @ [LF] @ str ''Hi|unknown'' @ [LF]
                                             @ str ''A|B'' @ [LF])\<rparr>)
     = Inr ([(str ''A'', str ''B''), (str ''Hi'', str ''unknown''), (str ''A'', str ''B'')],
            fresh\<lparr>quotes_file := Some (str ''A|B'' @ [LF] @ str ''Hi|unknown'' @ [LF]
                                             @ str ''A|B'' @ [LF])\<rparr>) \<and>
   well_formed [(str ''A'', str ''B''), (str ''Hi'', str ''unknown''), (str ''A'', str ''B'')] \<and>
   fst (projr (load_quotes (projr
     (remove_quote 1 (fresh\<lparr>quotes_file := Some (str ''A|B'' @ [LF] @ str ''Hi|unknown''
                                                   @ [LF] @ str ''A|B'' @ [LF])\<rparr>)))))
     = [(str ''Hi'', str ''Unknown''), (str ''A'', str ''B'')] \<and>
   (str ''A'', str ''B'') \<in> set [(str ''Hi'', str ''Unknown''), (str ''A'', str ''B'')] \<and>
   (str ''Hi'', str ''unknown'') \<notin> set [(str ''Hi'', str ''Unknown''), (str ''A'', str ''B'')]"
proof -
  have l: "fst (projr (load_quotes (projr
     (remove_quote 1 (fresh\<lparr>quotes_file := Some (str ''A|B'' @ [LF] @ str ''Hi|unknown''
                                                   @ [LF] @ str ''A|B'' @ [LF])\<rparr>)))))
     = [(str ''Hi'', str ''Unknown''), (str ''A'', str ''B'')]"
    by (simp only: duplicate_removed duplicate_reloaded sum.sel fst_conv)
  have m: "(str ''A'', str ''B'') \<in> set [(str ''Hi'', str ''Unknown''), (str ''A'', str ''B'')]"
    by simp
  have n: "(str ''Hi'', str ''unknown'') \<notin> set [(str ''Hi'', str ''Unknown''), (str ''A'', str ''B'')]"
    by (simp add: str_def)
  from duplicate_file duplicate_well_formed l m n show ?thesis by (intro conjI)
qed

text \<open>
  C6, amended: let the loaded list be well-formed and the index be one of 1..length. After
  \<open>remove_quote\<close> a load returns a list that is one shorter: the entries before and
  after the position of the index, in their order, each with its text; a quote equal to
  the removed one stays where the list had it a second time. Each entry has its author
  too, except that an author that is \<open>unknown\<close> in another case has been saved as a
  bare text and is \<open>Unknown\<close> now; where no author is one of those the list is the old
  one without the entry at the index.
\<close>

theorem remove_quote_then_load:
  assumes "load_quotes w = Inr (quotes, w1)" and "well_formed quotes"
    and "1 \<le> index" and "index \<le> int (length quotes)"
  shows "\<exists>w2 quotes'.
           remove_quote index w = Inr w2 \<and> load_quotes w2 = Inr (quotes', w2) \<and>
           length quotes' = length quotes - 1 \<and>
           quotes' = map reloaded (take (nat index - 1) quotes @ drop (nat index) quotes) \<and>
           map fst quotes' = map fst (take (nat index - 1) quotes @ drop (nat index) quotes) \<and>
           (list_all (\<lambda>q. reloaded q = q) quotes \<longrightarrow>
              quotes' = take (nat index - 1) quotes @ drop (nat index) quotes)"
proof -
  define rest where "rest = take (nat index - 1) quotes @ drop (nat index) quotes"
  define ws where
    "ws = w1\<lparr>quotes_file := Some (utf8 (spec_save rest)), writes := Suc (writes w1)\<rparr>"
  define w2 where "w2 =
     print ([128465, 65039] @ str '' Removed: '' @ [8220] @ fst (quotes ! (nat index - 1))
            @ [8221] @ str '' '' @ [8212] @ str '' '' @ snd (quotes ! (nat index - 1))) ws"
  have sub: "set rest \<subseteq> set quotes"
    unfolding rest_def using set_take_subset [of "nat index - 1" quotes]
      set_drop_subset [of "nat index" quotes] by auto
  have "list_all as_loaded quotes" using assms(1) by (rule as_loaded_load_quotes)
  then have "as_loaded q \<and> fst q \<noteq> []" if "q \<in> set rest" for q
    using that sub well_formed_text [OF assms(2), of q] by (auto simp: list_all_iff)
  then have ok: "list_all (\<lambda>q. as_loaded q \<and> fst q \<noteq> []) rest"
    by (simp add: list_all_iff)
  have s: "save_quotes rest w1 = Inr ws"
    and ls: "load_quotes ws = Inr (map reloaded rest, ws)"
    using load_after_save [OF ok, of w1] by (simp_all add: ws_def)
  have r: "remove_quote index w = Inr w2"
    unfolding w2_def using assms(1,3,4) s [unfolded rest_def]
    by (rule remove_quote_accepts)
  have f: "quotes_file w2 = Some (utf8 (spec_save rest))"
    by (simp add: w2_def ws_def)
  have d: "utf8_decode (utf8 (spec_save rest)) = Some (spec_save rest)"
    using ok by (intro utf8_decode_utf8 spec_save_encodable as_loaded_writable)
                (simp add: list_all_iff)
  have l: "load_quotes w2 = Inr (map reloaded rest, w2)"
    using load_quotes_existing [OF f d] spec_load_spec_save [OF ok] by simp
  have len: "length rest = length quotes - 1"
    unfolding rest_def using assms(3,4) by (simp add: min_def) linarith
  have same: "map reloaded rest = rest" if "list_all (\<lambda>q. reloaded q = q) quotes"
    using that sub by (auto simp: list_all_iff intro: map_idI)
  show ?thesis
    using r l len same unfolding rest_def [symmetric]
    by (intro exI [of _ w2] exI [of _ "map reloaded rest"]) (simp add: comp_def)
qed

lemma three_quote_file:
  "load_quotes (fresh\<lparr>quotes_file := Some (str ''A|B'' @ [LF] @ str ''Hi|unknown'' @ [LF]
                                             @ str ''C'' @ [LF])\<rparr>)
     = Inr ([(str ''A'', str ''B''), (str ''Hi'', str ''unknown''), (str ''C'', str ''Unknown'')],
            fresh\<lparr>quotes_file := Some (str ''A|B'' @ [LF] @ str ''Hi|unknown'' @ [LF]
                                             @ str ''C'' @ [LF])\<rparr>)"
  by (simp add: load_quotes_def ensure_quotes_file_def fresh_def utf8_decode.simps
        decode_first_def file_lines_def text_author_def unpack2_def str_def strip_def
        lstrip_def rstrip_def isspace_def LF_def CR_def BAR_def)

lemma three_quotes_well_formed:
  "well_formed [(str ''A'', str ''B''), (str ''Hi'', str ''unknown''), (str ''C'', str ''Unknown'')]"
  by (simp add: well_formed_def newline_free_def str_def strip_def lstrip_def
        rstrip_def isspace_def LF_def CR_def)

lemma reloaded_example:
  "map reloaded [(str ''Hi'', str ''unknown''), (str ''C'', str ''Unknown'')]
     = [(str ''Hi'', str ''Unknown''), (str ''C'', str ''Unknown'')]"
  by (simp add: reloaded_def lower_def lower_char_def str_def)

theorem remove_quote_then_load_witness:
  "load_quotes (fresh\<lparr>quotes_file := Some (str ''A|B'' @ [LF] @ str ''Hi|unknown'' @ [LF]
                                             @ str ''C'' @ [LF])\<rparr>)
     = Inr ([(str ''A'', str ''B''), (str ''Hi'', str ''unknown''), (str ''C'', str ''Unknown'')],
            fresh\<lparr>quotes_file := Some (str ''A|B'' @ [LF] @ str ''Hi|unknown'' @ [LF]
                                             @ str ''C'' @ [LF])\<rparr>) \<and>
   well_formed [(str ''A'', str ''B''), (str ''Hi'', str ''unknown''), (str ''C'', str ''Unknown'')] \<and>
   (\<exists>w2. remove_quote 1 (fresh\<lparr>quotes_file := Some (str ''A|B'' @ [LF] @ str ''Hi|unknown''
                                             @ [LF] @ str ''C'' @ [LF])\<rparr>) = Inr w2 \<and>
      load_quotes w2 = Inr ([(str ''Hi'', str ''Unknown''), (str ''C'', str ''Unknown'')], w2))"
  using remove_quote_then_load [OF three_quote_file three_quotes_well_formed, of 1]
        three_quote_file three_quotes_well_formed reloaded_example
  by simp

text \<open>
  An argument of \<open>--add\<close> that is not empty and is blank is reported, and nothing else
  happens. The dispatcher takes the first of add, remove, list, count and random whose
  test succeeds.
\<close>

lemma add_quote_blank:
  "blank raw \<Longrightarrow> add_quote raw w = Inr (print (str ''Provide a non-empty quote.'') w)"
  by (simp add: add_quote_def blank_iff)

lemma main_add_blank:
  "arg_add a = Some raw \<Longrightarrow> raw \<noteq> [] \<Longrightarrow> blank raw \<Longrightarrow>
     main a w = Inr (print (str ''Provide a non-empty quote.'') w)"
  by (simp add: main_def add_quote_blank)

lemma main_add: "arg_add a = Some raw \<Longrightarrow> raw \<noteq> [] \<Longrightarrow> main a w = add_quote raw w"
  by (simp add: main_def)

lemma main_remove:
  "arg_add a = None \<Longrightarrow> arg_remove a = Some n \<Longrightarrow> main a w = remove_quote n w"
  by (simp add: main_def)

lemma main_list:
  "arg_add a = None \<Longrightarrow> arg_remove a = None \<Longrightarrow> arg_list a \<Longrightarrow> main a w = list_quotes w"
  by (simp add: main_def)

lemma main_count:
  "arg_add a = None \<Longrightarrow> arg_remove a = None \<Longrightarrow> \<not> arg_list a \<Longrightarrow> arg_count a \<Longrightarrow>
     main a w = (case load_quotes w of
                   Inl e \<Rightarrow> Inl e
                 | Inr (quotes, w1) \<Rightarrow> Inr (print (str_of_nat (length quotes)) w1))"
  by (simp add: main_def)

lemma main_random:
  "arg_add a = None \<Longrightarrow> arg_remove a = None \<Longrightarrow> \<not> arg_list a \<Longrightarrow> \<not> arg_count a \<Longrightarrow>
     main a w = print_random_quote w"
  by (simp add: main_def)

lemma list_quotes_one:
  "list_quotes (fresh\<lparr>quotes_file := Some (str ''A|B'' @ [LF])\<rparr>)
     = Inr (fresh\<lparr>quotes_file := Some (str ''A|B'' @ [LF]),
                  stdout := [str ''1. A '' @ [8212] @ str '' B'']\<rparr>)"
  by (simp add: list_quotes_def one_quote_file print_def str_of_nat.simps)
     (simp add: fresh_def str_def)

lemma print_random_quote_fresh:
  "print_random_quote fresh
     = Inr (fresh\<lparr>quotes_file := Some default_file, writes := 1,
                  stdout := [[8220]
                    @ str ''The best way to get started is to quit talking and begin doing.''
                    @ [8221] @ str '' '' @ [8212] @ str '' Walt Disney'']\<rparr>)"
proof -
  have n: "quotes_file fresh = None" by (simp add: fresh_def)
  show ?thesis
    unfolding print_random_quote_def load_quotes_absent [OF n]
    by (simp add: choice_def default_pairs_def print_def fresh_def str_def)
qed

subsection \<open>C3: the precedence of the dispatcher\<close>

text \<open>
  C3 at \<open>--add "" --list\<close>: the option \<open>--add\<close> is on the command line and comes
  first in the precedence, but its argument is the empty string, which fails the truth
  test of \<open>main\<close>. The quotes are listed instead.
\<close>

theorem main_add_empty_with_list:
  "main \<lparr>arg_list = True, arg_count = False, arg_add = Some [], arg_remove = None\<rparr> w
     = list_quotes w \<and>
   main \<lparr>arg_list = True, arg_count = False, arg_add = Some [], arg_remove = None\<rparr>
        (fresh\<lparr>quotes_file := Some (str ''A|B'' @ [LF])\<rparr>)
     = Inr (fresh\<lparr>quotes_file := Some (str ''A|B'' @ [LF]),
                  stdout := [str ''1. A '' @ [8212] @ str '' B'']\<rparr>)"
  by (simp add: main_def list_quotes_one)

subsection \<open>C4: adding the empty string\<close>

text \<open>
  C4 at \<open>--add ""\<close>: the empty string fails the truth test of \<open>main\<close>, so
  \<open>add_quote\<close> and its message are never reached. A random quote is printed, and in a
  world without the file the file is written.
\<close>

theorem main_add_empty_string:
  "main \<lparr>arg_list = False, arg_count = False, arg_add = Some [], arg_remove = None\<rparr> w
     = print_random_quote w \<and>
   main \<lparr>arg_list = False, arg_count = False, arg_add = Some [], arg_remove = None\<rparr> fresh
     = Inr (fresh\<lparr>quotes_file := Some default_file, writes := 1,
                  stdout := [[8220]
                    @ str ''The best way to get started is to quit talking and begin doing.''
                    @ [8221] @ str '' '' @ [8212] @ str '' Walt Disney'']\<rparr>)"
  by (simp add: main_def print_random_quote_fresh)

end
